theory Spec2Isabelle
  imports Complex_Main
begin

section \<open>Data consistency checker (src/scheduler/dataConsistencyCheck.ts)\<close>

text \<open>
  Quantities and sizes are the numbers the source obtains with \<open>parseFloat\<close>; they are
  modelled as reals. Timestamps are milliseconds since the epoch. The local store is an
  in-memory table per SQL table, a list of rows in the order in which the queries of the
  checker return them (\<open>ORDER BY symbol\<close> for the positions); its statements are taken
  to succeed (the source logs and swallows a failing statement, which then changes
  nothing).
\<close>

subsection \<open>Tables and remote positions\<close>

record position =
  pos_symbol :: string
  pos_side :: string
  pos_entry_price :: real
  pos_stop_loss :: real
  pos_quantity :: real

record price_order =
  po_id :: int
  po_order_id :: string
  po_symbol :: string
  po_side :: string
  po_type :: string
  po_status :: string
  po_updated_at :: int

text \<open>A remote position as \<open>getPositions\<close> returns it; \<open>ex_size\<close> is \<open>None\<close> when the
  \<open>size\<close> field is missing or empty, where the source reads \<open>size || '0'\<close>.\<close>

record exchange_position =
  ex_contract :: string
  ex_size :: "real option"

record orphanPosition =
  op_symbol :: string
  op_side :: string
  op_dbSize :: real
  op_exchangeSize :: real

record orphanPriceOrder =
  oo_id :: int
  oo_order_id :: string
  oo_symbol :: string
  oo_type :: string

record InconsistentData =
  orphanPositions :: "orphanPosition list"
  orphanPriceOrders :: "orphanPriceOrder list"
  testDataPositions :: "(string \<times> string) list"
  missingPositions :: "(string \<times> real) list"

subsection \<open>checkConsistency\<close>

text \<open>\<open>String.prototype.includes\<close>: the pattern occurs as a contiguous substring.\<close>

fun str_includes :: "string \<Rightarrow> string \<Rightarrow> bool" where
  "str_includes [] pat = (pat = [])"
| "str_includes (c # cs) pat = (take (length pat) (c # cs) = pat \<or> str_includes cs pat)"

definition isTestData :: "string \<Rightarrow> bool" where
  "isTestData symbol =
     (str_includes symbol ''_TEST'' \<or> str_includes symbol ''test'' \<or> str_includes symbol ''TEST'')"

definition parseSize :: "real option \<Rightarrow> real" where
  "parseSize s = (case s of None \<Rightarrow> 0 | Some x \<Rightarrow> x)"

text \<open>\<open>exchangePos ? Math.abs(parseFloat(exchangePos.size || '0')) : 0\<close>, with
  \<open>exchangePos\<close> the first remote position whose contract is the normalised symbol.\<close>

definition exchangeSizeOf ::
  "(string \<Rightarrow> string) \<Rightarrow> exchange_position list \<Rightarrow> string \<Rightarrow> real" where
  "exchangeSizeOf normalizeContract exchangePositions symbol =
     (case find (\<lambda>p. ex_contract p = normalizeContract symbol) exchangePositions of
        None \<Rightarrow> 0
      | Some p \<Rightarrow> \<bar>parseSize (ex_size p)\<bar>)"

text \<open>Step 3 of \<open>checkConsistency\<close>: the loop over the local positions.\<close>

fun checkDbPositions ::
  "(string \<Rightarrow> string) \<Rightarrow> exchange_position list \<Rightarrow> position list
     \<Rightarrow> InconsistentData \<Rightarrow> InconsistentData" where
  "checkDbPositions normalizeContract exchangePositions [] result = result"
| "checkDbPositions normalizeContract exchangePositions (dbPos # rest) result =
     (let symbol = pos_symbol dbPos;
          side = pos_side dbPos;
          dbQty = \<bar>pos_quantity dbPos\<bar>;
          exchangeSize = exchangeSizeOf normalizeContract exchangePositions symbol
      in if isTestData symbol
         then checkDbPositions normalizeContract exchangePositions rest
                (result\<lparr>testDataPositions := testDataPositions result @ [(symbol, side)]\<rparr>)
         else if exchangeSize = 0 \<or> \<bar>exchangeSize - dbQty\<bar> > 0.0001
         then checkDbPositions normalizeContract exchangePositions rest
                (result\<lparr>orphanPositions := orphanPositions result @
                   [\<lparr>op_symbol = symbol, op_side = side, op_dbSize = dbQty,
                     op_exchangeSize = exchangeSize\<rparr>]\<rparr>)
         else checkDbPositions normalizeContract exchangePositions rest result)"

text \<open>Step 4: the loop over the remote positions.\<close>

fun checkExchangePositions ::
  "(string \<Rightarrow> string) \<Rightarrow> position list \<Rightarrow> exchange_position list
     \<Rightarrow> InconsistentData \<Rightarrow> InconsistentData" where
  "checkExchangePositions normalizeContract dbRows [] result = result"
| "checkExchangePositions normalizeContract dbRows (exchangePos # rest) result =
     (let contract = ex_contract exchangePos;
          size = \<bar>parseSize (ex_size exchangePos)\<bar>
      in if size < 0.0001
         then checkExchangePositions normalizeContract dbRows rest result
         else if find (\<lambda>p. normalizeContract (pos_symbol p) = contract) dbRows = None
         then checkExchangePositions normalizeContract dbRows rest
                (result\<lparr>missingPositions := missingPositions result @ [(contract, size)]\<rparr>)
         else checkExchangePositions normalizeContract dbRows rest result)"

text \<open>Step 5: the loop over the price orders with status \<open>active\<close>.\<close>

fun checkPriceOrders ::
  "position list \<Rightarrow> price_order list \<Rightarrow> InconsistentData \<Rightarrow> InconsistentData" where
  "checkPriceOrders dbRows [] result = result"
| "checkPriceOrders dbRows (order # rest) result =
     (let symbol = po_symbol order;
          side = po_side order;
          positionExists = list_ex (\<lambda>p. pos_symbol p = symbol \<and> pos_side p = side) dbRows
      in if \<not> positionExists
         then checkPriceOrders dbRows rest
                (result\<lparr>orphanPriceOrders := orphanPriceOrders result @
                   [\<lparr>oo_id = po_id order, oo_order_id = po_order_id order,
                     oo_symbol = symbol, oo_type = po_type order\<rparr>]\<rparr>)
         else checkPriceOrders dbRows rest result)"

definition emptyResult :: InconsistentData where
  "emptyResult = \<lparr>orphanPositions = [], orphanPriceOrders = [], testDataPositions = [],
                   missingPositions = []\<rparr>"

text \<open>The store as the checker sees it, with the remote cancellations it has attempted
  (the order ids passed to \<open>cancelOrder\<close>, oldest first).\<close>

record ledger =
  positions :: "position list"
  price_orders :: "price_order list"
  cancel_calls :: "string list"

definition activePriceOrders :: "ledger \<Rightarrow> price_order list" where
  "activePriceOrders st = filter (\<lambda>order. po_status order = ''active'') (price_orders st)"

definition checkConsistency ::
  "(string \<Rightarrow> string) \<Rightarrow> exchange_position list \<Rightarrow> ledger \<Rightarrow> InconsistentData" where
  "checkConsistency normalizeContract exchangePositions st =
     checkPriceOrders (positions st) (activePriceOrders st)
       (checkExchangePositions normalizeContract (positions st) exchangePositions
          (checkDbPositions normalizeContract exchangePositions (positions st) emptyResult))"

definition hasInconsistencies :: "InconsistentData \<Rightarrow> bool" where
  "hasInconsistencies data =
     (length (orphanPositions data) > 0 \<or> length (orphanPriceOrders data) > 0 \<or>
      length (testDataPositions data) > 0 \<or> length (missingPositions data) > 0)"

subsection \<open>fixInconsistencies\<close>

definition removePosition :: "string \<Rightarrow> string \<Rightarrow> ledger \<Rightarrow> ledger" where
  "removePosition symbol side st =
     st\<lparr>positions := filter (\<lambda>p. \<not> (pos_symbol p = symbol \<and> pos_side p = side)) (positions st)\<rparr>"

definition updatePriceOrderStatus :: "int \<Rightarrow> string \<Rightarrow> ledger \<Rightarrow> ledger" where
  "updatePriceOrderStatus now orderId st =
     st\<lparr>price_orders :=
          map (\<lambda>order. if po_order_id order = orderId
                        then order\<lparr>po_status := ''cancelled'', po_updated_at := now\<rparr>
                        else order) (price_orders st)\<rparr>"

text \<open>The remote cancellation is attempted and its failure is swallowed; then the local
  status is updated.\<close>

definition cancelAndMark :: "int \<Rightarrow> string \<Rightarrow> ledger \<Rightarrow> ledger" where
  "cancelAndMark now orderId st =
     updatePriceOrderStatus now orderId (st\<lparr>cancel_calls := cancel_calls st @ [orderId]\<rparr>)"

definition cancelRelatedPriceOrders :: "int \<Rightarrow> string \<Rightarrow> string \<Rightarrow> ledger \<Rightarrow> ledger" where
  "cancelRelatedPriceOrders now symbol side st =
     fold (cancelAndMark now)
       (map po_order_id
          (filter (\<lambda>order. po_symbol order = symbol \<and> po_side order = side \<and>
                           po_status order = ''active'') (price_orders st)))
       st"

definition fixOrphanPosition :: "int \<Rightarrow> orphanPosition \<Rightarrow> ledger \<Rightarrow> ledger" where
  "fixOrphanPosition now orphan st =
     (if op_exchangeSize orphan = 0
      then cancelRelatedPriceOrders now (op_symbol orphan) (op_side orphan)
             (removePosition (op_symbol orphan) (op_side orphan) st)
      else st)"

definition fixTestData :: "int \<Rightarrow> string \<times> string \<Rightarrow> ledger \<Rightarrow> ledger" where
  "fixTestData now testData st =
     cancelRelatedPriceOrders now (fst testData) (snd testData)
       (removePosition (fst testData) (snd testData) st)"

definition fixInconsistencies :: "int \<Rightarrow> InconsistentData \<Rightarrow> ledger \<Rightarrow> ledger" where
  "fixInconsistencies now data st =
     fold (fixTestData now) (testDataPositions data)
       (fold (\<lambda>orphan. cancelAndMark now (oo_order_id orphan)) (orphanPriceOrders data)
          (fold (fixOrphanPosition now) (orphanPositions data) st))"

subsection \<open>Auxiliary notions for the proofs about the checker\<close>

text \<open>The tests and the records the three loops of \<open>checkConsistency\<close> build, named.\<close>

definition isOrphan :: "(string \<Rightarrow> string) \<Rightarrow> exchange_position list \<Rightarrow> position \<Rightarrow> bool" where
  "isOrphan nc eps p =
     (exchangeSizeOf nc eps (pos_symbol p) = 0 \<or>
      \<bar>exchangeSizeOf nc eps (pos_symbol p) - \<bar>pos_quantity p\<bar>\<bar> > 0.0001)"

definition orphanOf :: "(string \<Rightarrow> string) \<Rightarrow> exchange_position list \<Rightarrow> position \<Rightarrow> orphanPosition" where
  "orphanOf nc eps p =
     \<lparr>op_symbol = pos_symbol p, op_side = pos_side p, op_dbSize = \<bar>pos_quantity p\<bar>,
      op_exchangeSize = exchangeSizeOf nc eps (pos_symbol p)\<rparr>"

definition isMissing :: "(string \<Rightarrow> string) \<Rightarrow> position list \<Rightarrow> exchange_position \<Rightarrow> bool" where
  "isMissing nc rows e =
     (\<not> \<bar>parseSize (ex_size e)\<bar> < 0.0001 \<and>
      find (\<lambda>p. nc (pos_symbol p) = ex_contract e) rows = None)"

definition orphanOrderOf :: "price_order \<Rightarrow> orphanPriceOrder" where
  "orphanOrderOf order = \<lparr>oo_id = po_id order, oo_order_id = po_order_id order,
                     oo_symbol = po_symbol order, oo_type = po_type order\<rparr>"

definition hasPosition :: "position list \<Rightarrow> price_order \<Rightarrow> bool" where
  "hasPosition rows order = list_ex (\<lambda>p. pos_symbol p = po_symbol order \<and> pos_side p = po_side order) rows"

definition cancel_ids :: "int \<Rightarrow> string set \<Rightarrow> price_order list \<Rightarrow> price_order list" where
  "cancel_ids now S orders =
     map (\<lambda>order. if po_order_id order \<in> S
                   then order\<lparr>po_status := ''cancelled'', po_updated_at := now\<rparr>
                   else order) orders"

definition relatedIds :: "string \<Rightarrow> string \<Rightarrow> price_order list \<Rightarrow> string set" where
  "relatedIds symbol side orders =
     po_order_id ` {order \<in> set orders. po_symbol order = symbol \<and> po_side order = side \<and>
                                         po_status order = ''active''}"

definition removedKeys :: "InconsistentData \<Rightarrow> (string \<times> string) set" where
  "removedKeys data =
     (\<lambda>orphan. (op_symbol orphan, op_side orphan)) `
        {orphan \<in> set (orphanPositions data). op_exchangeSize orphan = 0}
     \<union> set (testDataPositions data)"

definition cancelledIds :: "InconsistentData \<Rightarrow> price_order list \<Rightarrow> string set" where
  "cancelledIds data orders =
     oo_order_id ` set (orphanPriceOrders data) \<union>
     (\<Union>key \<in> removedKeys data. relatedIds (fst key) (snd key) orders)"

definition tracked :: "int \<Rightarrow> price_order list \<Rightarrow> string list \<Rightarrow> string set \<Rightarrow> ledger \<Rightarrow> bool" where
  "tracked now orders0 calls0 S st =
     (price_orders st = cancel_ids now S orders0 \<and>
      (\<exists>calls. cancel_calls st = calls0 @ calls \<and> set calls \<subseteq> S))"

definition keep :: "(string \<times> string) set \<Rightarrow> position list \<Rightarrow> position list" where
  "keep K rows = filter (\<lambda>p. (pos_symbol p, pos_side p) \<notin> K) rows"

definition zeroKeys :: "orphanPosition list \<Rightarrow> (string \<times> string) set" where
  "zeroKeys orphans = (\<lambda>orphan. (op_symbol orphan, op_side orphan)) `
        {orphan \<in> set orphans. op_exchangeSize orphan = 0}"

definition restamp :: "int \<Rightarrow> string set \<Rightarrow> price_order list \<Rightarrow> price_order list" where
  "restamp now S orders =
     map (\<lambda>order. if po_order_id order \<in> S then order\<lparr>po_updated_at := now\<rparr> else order) orders"

subsection \<open>A ledger and a remote state used as examples\<close>

definition example_ledger :: ledger where
  "example_ledger =
     \<lparr>positions =
         [\<lparr>pos_symbol = ''BTC'', pos_side = ''long'', pos_entry_price = 60000,
           pos_stop_loss = 59000, pos_quantity = 0.5\<rparr>,
          \<lparr>pos_symbol = ''BTC_TEST'', pos_side = ''long'', pos_entry_price = 1,
           pos_stop_loss = 0, pos_quantity = 1\<rparr>,
          \<lparr>pos_symbol = ''ETH'', pos_side = ''short'', pos_entry_price = 3000,
           pos_stop_loss = 3100, pos_quantity = 2\<rparr>],
       price_orders =
         [\<lparr>po_id = 1, po_order_id = ''b1'', po_symbol = ''BTC'', po_side = ''long'',
           po_type = ''stop_loss'', po_status = ''active'', po_updated_at = 0\<rparr>,
          \<lparr>po_id = 2, po_order_id = ''e1'', po_symbol = ''ETH'', po_side = ''short'',
           po_type = ''stop_loss'', po_status = ''active'', po_updated_at = 0\<rparr>,
          \<lparr>po_id = 3, po_order_id = ''x1'', po_symbol = ''XRP'', po_side = ''short'',
           po_type = ''take_profit'', po_status = ''active'', po_updated_at = 0\<rparr>],
       cancel_calls = []\<rparr>"

definition example_remote :: "exchange_position list" where
  "example_remote =
     [\<lparr>ex_contract = ''ETH'', ex_size = Some 1.5\<rparr>,
      \<lparr>ex_contract = ''SOL'', ex_size = Some 10\<rparr>]"

section \<open>Partial take-profit executor (src/services/partialTakeProfitExecutor.ts)\<close>

text \<open>
  The store of the executor: the lease rows of \<open>system_config\<close> (one row per key: the
  value is the holder, with its \<open>updated_at\<close>), the rows of
  \<open>partial_take_profit_history\<close> and of \<open>positions\<close>, the clock that \<open>new Date()\<close>
  and \<open>julianday('now')\<close> read (in milliseconds), and a fault schedule: each statement
  sent to the store consumes the head of \<open>faults\<close> and throws when it is \<open>True\<close>.
  What is thrown is an \<open>Error\<close> object: it carries a message, which is all the
  handlers read.
\<close>

subsection \<open>The store and its statements\<close>

datatype error = Error string

record tp_history_row =
  h_symbol :: string
  h_stage :: nat
  h_trigger_price :: real
  h_timestamp :: int
  h_status :: string

record store =
  system_config :: "string \<rightharpoonup> string \<times> int"
  tp_history :: "tp_history_row list"
  tp_positions :: "position list"
  clock :: int
  faults :: "bool list"

text \<open>\<open>await dbClient.execute(...)\<close>: the statement runs, or throws and changes nothing.\<close>

definition db_execute :: "(store \<Rightarrow> 'a \<times> store) \<Rightarrow> store \<Rightarrow> (error + 'a) \<times> store" where
  "db_execute stmt db =
     (case faults db of
        [] \<Rightarrow> (case stmt db of (r, db') \<Rightarrow> (Inr r, db'))
      | f # fs \<Rightarrow>
          if f then (Inl (Error ''store''), db\<lparr>faults := fs\<rparr>)
          else (case stmt (db\<lparr>faults := fs\<rparr>) of (r, db') \<Rightarrow> (Inr r, db')))"

definition LOCK_TIMEOUT_MS :: int where
  "LOCK_TIMEOUT_MS = 30000"

text \<open>\<open>DELETE FROM system_config WHERE key = ? AND age in seconds >= 30\<close>\<close>

definition delete_expired :: "string \<Rightarrow> store \<Rightarrow> unit \<times> store" where
  "delete_expired key db =
     ((), case system_config db key of
            None \<Rightarrow> db
          | Some (v, updated_at) \<Rightarrow>
              if clock db - updated_at \<ge> LOCK_TIMEOUT_MS
              then db\<lparr>system_config := (system_config db)(key := None)\<rparr>
              else db)"

text \<open>\<open>SELECT value, updated_at FROM system_config WHERE key = ?\<close>\<close>

definition select_lock :: "string \<Rightarrow> store \<Rightarrow> (string \<times> int) option \<times> store" where
  "select_lock key db = (system_config db key, db)"

text \<open>\<open>UPDATE system_config SET updated_at = ? WHERE key = ? AND value = ?\<close>\<close>

definition refresh_lock :: "string \<Rightarrow> string \<Rightarrow> store \<Rightarrow> unit \<times> store" where
  "refresh_lock key holder db =
     ((), case system_config db key of
            None \<Rightarrow> db
          | Some (v, updated_at) \<Rightarrow>
              if v = holder
              then db\<lparr>system_config := (system_config db)(key \<mapsto> (holder, clock db))\<rparr>
              else db)"

text \<open>\<open>INSERT INTO system_config ... SELECT ?, ?, ? WHERE NOT EXISTS (... WHERE key = ?)\<close>\<close>

definition insert_lock :: "string \<Rightarrow> string \<Rightarrow> store \<Rightarrow> unit \<times> store" where
  "insert_lock key holder db =
     ((), case system_config db key of
            None \<Rightarrow> db\<lparr>system_config := (system_config db)(key \<mapsto> (holder, clock db))\<rparr>
          | Some row \<Rightarrow> db)"

text \<open>\<open>DELETE FROM system_config WHERE key = ?\<close>\<close>

definition delete_lock :: "string \<Rightarrow> store \<Rightarrow> unit \<times> store" where
  "delete_lock key db = ((), db\<lparr>system_config := (system_config db)(key := None)\<rparr>)"

text \<open>\<open>SELECT COUNT(*) FROM partial_take_profit_history WHERE symbol = ? AND stage = ?
  AND timestamp > ? AND status = 'completed'\<close>\<close>

definition count_recent :: "string \<Rightarrow> nat \<Rightarrow> int \<Rightarrow> store \<Rightarrow> nat \<times> store" where
  "count_recent symbol stage cutoffTime db =
     (length (filter (\<lambda>row. h_symbol row = symbol \<and> h_stage row = stage \<and>
                             h_timestamp row > cutoffTime \<and> h_status row = ''completed'')
                (tp_history db)), db)"

text \<open>\<open>SELECT COUNT(*) FROM partial_take_profit_history WHERE symbol = ? AND stage = N
  AND status = 'completed'\<close>\<close>

definition count_completed :: "string \<Rightarrow> nat \<Rightarrow> store \<Rightarrow> nat \<times> store" where
  "count_completed symbol stage db =
     (length (filter (\<lambda>row. h_symbol row = symbol \<and> h_stage row = stage \<and>
                             h_status row = ''completed'') (tp_history db)), db)"

text \<open>\<open>SELECT stage, trigger_price, ... WHERE symbol = ? AND status = 'completed'
  ORDER BY stage ASC LIMIT 1\<close>: the first row of the least stage.\<close>

fun least_stage :: "tp_history_row \<Rightarrow> tp_history_row list \<Rightarrow> tp_history_row" where
  "least_stage best [] = best"
| "least_stage best (row # rows) =
     least_stage (if h_stage row < h_stage best then row else best) rows"

definition first_completed :: "string \<Rightarrow> store \<Rightarrow> tp_history_row option \<times> store" where
  "first_completed symbol db =
     (case filter (\<lambda>row. h_symbol row = symbol \<and> h_status row = ''completed'') (tp_history db) of
        [] \<Rightarrow> (None, db)
      | row # rows \<Rightarrow> (Some (least_stage row rows), db))"


subsection \<open>DistributedLock\<close>

definition tryAcquire :: "string \<Rightarrow> string \<Rightarrow> store \<Rightarrow> bool \<times> store" where
  "tryAcquire key holder db =
     (case db_execute (delete_expired key) db of
        (Inl e, db1) \<Rightarrow> (False, db1)
      | (Inr u, db1) \<Rightarrow>
     (case db_execute (select_lock key) db1 of
        (Inl e, db2) \<Rightarrow> (False, db2)
      | (Inr (Some (lockValue, lockTime)), db2) \<Rightarrow>
          if lockValue = holder
          then (case db_execute (refresh_lock key holder) db2 of
                  (Inl e, db3) \<Rightarrow> (False, db3)
                | (Inr u, db3) \<Rightarrow> (True, db3))
          else (False, db2)
      | (Inr None, db2) \<Rightarrow>
     (case db_execute (insert_lock key holder) db2 of
        (Inl insertError, db3) \<Rightarrow> (False, db3)
      | (Inr u, db3) \<Rightarrow>
     (case db_execute (select_lock key) db3 of
        (Inl e, db4) \<Rightarrow> (False, db4)
      | (Inr verifyResult, db4) \<Rightarrow>
          (case verifyResult of
             Some (v, t) \<Rightarrow> if v = holder then (True, db4) else (False, db4)
           | None \<Rightarrow> (False, db4))))))"

definition release :: "string \<Rightarrow> string \<Rightarrow> store \<Rightarrow> store" where
  "release key holder db =
     (case db_execute (select_lock key) db of
        (Inl e, db1) \<Rightarrow> db1
      | (Inr checkResult, db1) \<Rightarrow>
          (case checkResult of
             Some (v, t) \<Rightarrow>
               if v = holder
               then (case db_execute (delete_lock key) db1 of (r, db2) \<Rightarrow> db2)
               else db1
           | None \<Rightarrow> db1))"

definition hasRecentExecution :: "string \<Rightarrow> nat \<Rightarrow> int \<Rightarrow> store \<Rightarrow> bool \<times> store" where
  "hasRecentExecution symbol stage windowSeconds db =
     (let cutoffTime = clock db - windowSeconds * 1000
      in case db_execute (count_recent symbol stage cutoffTime) db of
           (Inl e, db1) \<Rightarrow> (False, db1)
         | (Inr count, db1) \<Rightarrow> (count > 0, db1))"

subsection \<open>PartialTakeProfitExecutor.executeCheck\<close>

text \<open>
  The capabilities \<open>executeCheck\<close> imports: the exchange client, the volatility analysis,
  the R-multiple functions, the strategy parameters (the R-multiples configured for stage
  1 and stage 2) and the stage executor \<open>partialTakeProfitTool.execute\<close>. Each may throw.
  The executor is given the symbol and the stage; what it does to the store is seen here
  through the rows it adds to \<open>partial_take_profit_history\<close>, the one table of its
  that \<open>executeCheck\<close> reads back within a pass.
\<close>

record exec_outcome =
  ex_result :: "error + bool"
  ex_rows :: "tp_history_row list"

record 'v deps =
  normalizeContract :: "string \<Rightarrow> string"
  getFuturesTicker :: "string \<Rightarrow> error + real"
  analyzeMarketVolatility :: "string \<Rightarrow> string \<Rightarrow> error + 'v"
  calculateRMultiple :: "real \<Rightarrow> real \<Rightarrow> real \<Rightarrow> string \<Rightarrow> real"
  adjustRMultipleForVolatility :: "real \<Rightarrow> 'v \<Rightarrow> real"
  getStrategyParams :: "error + real \<times> real"
  partialTakeProfitTool_execute :: "string \<Rightarrow> string \<Rightarrow> store \<Rightarrow> exec_outcome"

text \<open>The accumulators of a pass: \<open>executed\<close> (the details), \<open>executedCount\<close> and
  \<open>skippedCount\<close>.\<close>

record check_acc =
  acc_details :: "(string \<times> nat \<times> string) list"
  executedCount :: nat
  skippedCount :: nat


text \<open>How a block of the loop body ends: with \<open>continue\<close>, by falling through to the
  code after it, or with an exception that leaves the loop.\<close>

datatype flow = Continue | Proceed | Throw error

datatype 'a outcome = Returns 'a | Throws error

text \<open>\<open>String.prototype.replace\<close> with a string pattern: the first occurrence.\<close>

fun replace_first :: "string \<Rightarrow> string \<Rightarrow> string \<Rightarrow> string" where
  "replace_first [] pat by = (if pat = [] then by else [])"
| "replace_first (c # cs) pat by =
     (if take (length pat) (c # cs) = pat then by @ drop (length pat) (c # cs)
      else c # replace_first cs pat by)"

definition stage_digit :: "nat \<Rightarrow> string" where
  "stage_digit stage = (if stage = 1 then ''1'' else ''2'')"

definition lockKey :: "string \<Rightarrow> string \<Rightarrow> nat \<Rightarrow> string" where
  "lockKey symbol side stage =
     ''partial_tp_'' @ symbol @ ''_'' @ side @ ''_stage'' @ stage_digit stage"

definition skip_with :: "check_acc \<Rightarrow> string \<Rightarrow> nat \<Rightarrow> string \<Rightarrow> check_acc" where
  "skip_with acc symbol stage result =
     acc\<lparr>skippedCount := skippedCount acc + 1,
         acc_details := acc_details acc @ [(symbol, stage, result)]\<rparr>"

text \<open>The \<open>try\<close> block under the lease (the same code for stage 1 and stage 2, with the
  stage number written in): the history check, then the executor.\<close>

definition underLease ::
  "'v deps \<Rightarrow> string \<Rightarrow> string \<Rightarrow> nat \<Rightarrow> check_acc \<times> store \<Rightarrow> flow \<times> check_acc \<times> store" where
  "underLease deps caller symbol stage accdb =
     (case accdb of (acc, db) \<Rightarrow>
      case db_execute (count_completed symbol stage) db of
        (Inl e, db1) \<Rightarrow> (Throw e, acc, db1)
      | (Inr count, db1) \<Rightarrow>
          let stageExecuted = count > 0
          in if \<not> stageExecuted
             then
               (let out = partialTakeProfitTool_execute deps
                            (replace_first (replace_first symbol ''_USDT'' '''') ''USDT'' '''')
                            (stage_digit stage) db1;
                    db2 = db1\<lparr>tp_history := tp_history db1 @ ex_rows out\<rparr>
                in case ex_result out of
                     Inl e \<Rightarrow> (Throw e, acc, db2)
                   | Inr result_success \<Rightarrow>
                       if result_success
                       then (Proceed,
                             acc\<lparr>executedCount := executedCount acc + 1,
                                 acc_details := acc_details acc @ [(symbol, stage, ''success'')]\<rparr>,
                             db2)
                       else (Proceed,
                             acc\<lparr>acc_details := acc_details acc @ [(symbol, stage, ''failed'')]\<rparr>,
                             db2))
             else (Proceed, skip_with acc symbol stage ''already_executed'', db1))"

text \<open>The block \<open>if (currentR >= adjustedR) { ... }\<close> of one stage: the guard, the
  lease, the \<open>try\<close> block and, in \<open>finally\<close>, the release.\<close>

definition runStage ::
  "'v deps \<Rightarrow> string \<Rightarrow> string \<Rightarrow> string \<Rightarrow> nat \<Rightarrow> check_acc \<times> store
     \<Rightarrow> flow \<times> check_acc \<times> store" where
  "runStage deps caller symbol side stage accdb =
     (case accdb of (acc, db) \<Rightarrow>
      case hasRecentExecution symbol stage 30 db of (hasRecent, db1) \<Rightarrow>
      if hasRecent then (Continue, skip_with acc symbol stage ''recently_executed'', db1)
      else
      case tryAcquire (lockKey symbol side stage) caller db1 of (lockAcquired, db2) \<Rightarrow>
      if \<not> lockAcquired then (Continue, skip_with acc symbol stage ''lock_busy'', db2)
      else
      case underLease deps caller symbol stage (acc, db2) of (fl, acc3, db3) \<Rightarrow>
        (fl, acc3, release (lockKey symbol side stage) caller db3))"

text \<open>The two stage blocks, stage 1 first; a \<open>continue\<close> or an exception in the first
  leaves the body before the second.\<close>

definition evalStages ::
  "'v deps \<Rightarrow> string \<Rightarrow> string \<Rightarrow> string \<Rightarrow> real \<Rightarrow> real \<Rightarrow> real \<Rightarrow> check_acc \<times> store
     \<Rightarrow> flow \<times> check_acc \<times> store" where
  "evalStages deps caller symbol side currentR adjustedR1 adjustedR2 accdb =
     (case (if currentR \<ge> adjustedR1 then runStage deps caller symbol side 1 accdb
            else (Proceed, accdb)) of
        (Proceed, accdb1) \<Rightarrow>
          if currentR \<ge> adjustedR2 then runStage deps caller symbol side 2 accdb1
          else (Proceed, accdb1)
      | (fl, accdb1) \<Rightarrow> (fl, accdb1))"

text \<open>The original stop-loss: recovered from the first completed history row when that
  row is of stage 1 and has a positive trigger price, the stored stop-loss otherwise (also
  when the query throws).\<close>

definition recoverOriginalStopLoss ::
  "string \<Rightarrow> real \<Rightarrow> real \<Rightarrow> store \<Rightarrow> real \<times> store" where
  "recoverOriginalStopLoss symbol entryPrice stopLossPrice db =
     (case db_execute (first_completed symbol) db of
        (Inl historyError, db1) \<Rightarrow> (stopLossPrice, db1)
      | (Inr None, db1) \<Rightarrow> (stopLossPrice, db1)
      | (Inr (Some firstStage), db1) \<Rightarrow>
          if h_stage firstStage = 1 \<and> h_trigger_price firstStage > 0
          then (2 * entryPrice - h_trigger_price firstStage, db1)
          else (stopLossPrice, db1))"

text \<open>The body of the loop over the positions.\<close>

definition evalPosition ::
  "'v deps \<Rightarrow> string \<Rightarrow> real \<times> real \<Rightarrow> position \<Rightarrow> check_acc \<times> store
     \<Rightarrow> flow \<times> check_acc \<times> store" where
  "evalPosition deps caller tpConfig pos accdb =
     (case accdb of (acc, db) \<Rightarrow>
      let symbol = pos_symbol pos;
          side = pos_side pos;
          entryPrice = pos_entry_price pos;
          stopLossPrice = pos_stop_loss pos
      in if stopLossPrice = 0 \<or> stopLossPrice \<le> 0 then (Continue, acc, db)
         else
         case getFuturesTicker deps (normalizeContract deps symbol) of
           Inl priceError \<Rightarrow> (Continue, acc, db)
         | Inr currentPrice \<Rightarrow>
         if currentPrice \<le> 0 then (Continue, acc, db)
         else
         case recoverOriginalStopLoss symbol entryPrice stopLossPrice db of
           (originalStopLoss, db1) \<Rightarrow>
         let riskDistance = \<bar>entryPrice - originalStopLoss\<bar>
         in if riskDistance = 0 then (Continue, acc, db1)
            else
            let currentR = calculateRMultiple deps entryPrice currentPrice originalStopLoss side
            in case analyzeMarketVolatility deps symbol ''15m'' of
                 Inl e \<Rightarrow> (Throw e, acc, db1)
               | Inr volatility \<Rightarrow>
                   let adjustedR1 = adjustRMultipleForVolatility deps (fst tpConfig) volatility;
                       adjustedR2 = adjustRMultipleForVolatility deps (snd tpConfig) volatility
                   in evalStages deps caller symbol side currentR adjustedR1 adjustedR2
                        (acc, db1))"

fun positionsLoop ::
  "'v deps \<Rightarrow> string \<Rightarrow> real \<times> real \<Rightarrow> position list \<Rightarrow> check_acc \<times> store
     \<Rightarrow> error option \<times> check_acc \<times> store" where
  "positionsLoop deps caller tpConfig [] accdb = (None, accdb)"
| "positionsLoop deps caller tpConfig (pos # rest) accdb =
     (case evalPosition deps caller tpConfig pos accdb of
        (Throw e, accdb1) \<Rightarrow> (Some e, accdb1)
      | (fl, accdb1) \<Rightarrow> positionsLoop deps caller tpConfig rest accdb1)"




subsection \<open>Injected capabilities and stores used as examples\<close>






definition example_store :: "position list \<Rightarrow> tp_history_row list \<Rightarrow> store" where
  "example_store rows history =
     \<lparr>system_config = Map.empty, tp_history = history, tp_positions = rows,
      clock = 1000000, faults = []\<rparr>"

subsection \<open>Auxiliary notions for the proofs about the executor\<close>

text \<open>The store after a lease is written or removed, the tests that the guard, the
  lease acquisition and the history check compute on a store whose statements succeed,
  and the part of the \<open>try\<close> block that follows the history check.\<close>

definition acquired :: "string \<Rightarrow> string \<Rightarrow> store \<Rightarrow> store" where
  "acquired key holder db = db\<lparr>system_config := (system_config db)(key \<mapsto> (holder, clock db))\<rparr>"

definition lease_free :: "string \<Rightarrow> string \<Rightarrow> store \<Rightarrow> bool" where
  "lease_free key holder db =
     (case system_config db key of
        None \<Rightarrow> True
      | Some (v, updated_at) \<Rightarrow> clock db - updated_at \<ge> LOCK_TIMEOUT_MS \<or> v = holder)"

definition recentlyCompleted :: "string \<Rightarrow> nat \<Rightarrow> store \<Rightarrow> bool" where
  "recentlyCompleted symbol stage db =
     list_ex (\<lambda>row. h_symbol row = symbol \<and> h_stage row = stage \<and>
                     h_timestamp row > clock db - 30 * 1000 \<and> h_status row = ''completed'')
       (tp_history db)"

definition stageCompleted :: "string \<Rightarrow> nat \<Rightarrow> store \<Rightarrow> bool" where
  "stageCompleted symbol stage db =
     list_ex (\<lambda>row. h_symbol row = symbol \<and> h_stage row = stage \<and>
                     h_status row = ''completed'') (tp_history db)"

definition released :: "string \<Rightarrow> store \<Rightarrow> store" where
  "released key db = db\<lparr>system_config := (system_config db)(key := None)\<rparr>"

definition afterExecutor ::
  "'v deps \<Rightarrow> string \<Rightarrow> nat \<Rightarrow> check_acc \<Rightarrow> store \<Rightarrow> flow \<times> check_acc \<times> store" where
  "afterExecutor deps symbol stage acc db =
     (let out = partialTakeProfitTool_execute deps
                  (replace_first (replace_first symbol ''_USDT'' '''') ''USDT'' '''')
                  (stage_digit stage) db;
          db2 = db\<lparr>tp_history := tp_history db @ ex_rows out\<rparr>
      in case ex_result out of
           Inl e \<Rightarrow> (Throw e, acc, db2)
         | Inr result_success \<Rightarrow>
             if result_success
             then (Proceed,
                   acc\<lparr>executedCount := executedCount acc + 1,
                       acc_details := acc_details acc @ [(symbol, stage, ''success'')]\<rparr>,
                   db2)
             else (Proceed,
                   acc\<lparr>acc_details := acc_details acc @ [(symbol, stage, ''failed'')]\<rparr>,
                   db2))"

section \<open>The schedule of the consistency checker (\<open>start\<close>, \<open>stop\<close>, \<open>runCheck\<close>)\<close>

text \<open>
  \<open>runCheck\<close> is asynchronous: a call starts a pass, which ends later. The state of a
  checker is its flag \<open>isRunning\<close>, whether \<open>intervalId\<close> holds a timer, and, to observe
  the passes, how many are in progress and how many were started. The events are the
  calls of \<open>start\<close>, \<open>stop\<close> and \<open>runManualCheck\<close>, the timer firing, and a pass in
  progress coming to its end.
\<close>

record checker =
  isRunning :: bool
  intervalId :: bool
  passes_in_progress :: nat
  passes_started :: nat

datatype checker_event = Start | Stop | TimerFires | PassEnds | ManualCheck

definition newChecker :: checker where
  "newChecker = \<lparr>isRunning = False, intervalId = False, passes_in_progress = 0,
                  passes_started = 0\<rparr>"

text \<open>A call of \<open>runCheck\<close>: the pass begins, with no test of any flag.\<close>

definition runCheck_begins :: "checker \<Rightarrow> checker" where
  "runCheck_begins c =
     c\<lparr>passes_in_progress := passes_in_progress c + 1, passes_started := passes_started c + 1\<rparr>"

definition start :: "checker \<Rightarrow> checker" where
  "start c =
     (if isRunning c then c
      else (runCheck_begins c)\<lparr>intervalId := True, isRunning := True\<rparr>)"

definition stop :: "checker \<Rightarrow> checker" where
  "stop c = c\<lparr>intervalId := False, isRunning := False\<rparr>"

fun checker_step :: "checker_event \<Rightarrow> checker \<Rightarrow> checker" where
  "checker_step Start c = start c"
| "checker_step Stop c = stop c"
| "checker_step TimerFires c = (if intervalId c then runCheck_begins c else c)"
| "checker_step PassEnds c =
     (if passes_in_progress c > 0 then c\<lparr>passes_in_progress := passes_in_progress c - 1\<rparr>
      else c)"
| "checker_step ManualCheck c = runCheck_begins c"

definition checker_run :: "checker_event list \<Rightarrow> checker \<Rightarrow> checker" where
  "checker_run events c = fold checker_step events c"

section \<open>Concurrent callers of one stage\<close>

text \<open>
  Several callers run the block of one stage (one symbol, side and stage) of
  \<open>executeCheck\<close> against the same store. Every \<open>await\<close> of the block is a point where
  another caller may run, so a caller advances one awaited statement at a time: the
  statements are those of the store above, and a statement may throw. A caller is at one
  of these points of the block:
\<close>

datatype pc =
    Idle
  | Guard
  | AcqDelete
  | AcqSelect
  | AcqRefresh
  | AcqInsert
  | AcqVerify
  | HistCheck
  | Invoke
  | Executing
  | RelSelect
  | RelDelete

text \<open>
  \<open>Idle\<close>: outside the block (before a call reaches it, or after it: outcome recorded,
  lease released or given up). \<open>Guard\<close>: before the query of \<open>hasRecentExecution\<close>.
  \<open>AcqDelete\<close>, \<open>AcqSelect\<close>, \<open>AcqRefresh\<close>, \<open>AcqInsert\<close>, \<open>AcqVerify\<close>: before the
  statements of \<open>tryAcquire\<close>. \<open>HistCheck\<close>: the lease was granted, before the history
  check. \<open>Invoke\<close>: the check found no completed row, before the executor is called.
  \<open>Executing\<close>: the executor is running. \<open>RelSelect\<close>, \<open>RelDelete\<close>: before the statements
  of \<open>release\<close> in the \<open>finally\<close> block.
\<close>

text \<open>One step of a caller with identity \<open>holder\<close> at point \<open>pc\<close>; \<open>ok\<close> is false when
  the awaited statement throws. The result is the next point, the store, and whether the
  step is an invocation of the executor.\<close>

definition caller_step ::
  "string \<Rightarrow> string \<Rightarrow> nat \<Rightarrow> string \<Rightarrow> bool \<Rightarrow> pc \<Rightarrow> store \<Rightarrow> pc \<times> store \<times> bool" where
  "caller_step symbol side stage holder ok pc db =
     (let key = lockKey symbol side stage in
      case pc of
        Idle \<Rightarrow> (if ok then Guard else Idle, db, False)
      | Guard \<Rightarrow>
          if ok \<and> fst (count_recent symbol stage (clock db - 30 * 1000) db) > 0
          then (Idle, db, False)
          else (AcqDelete, db, False)
      | AcqDelete \<Rightarrow>
          if ok then (AcqSelect, snd (delete_expired key db), False) else (Idle, db, False)
      | AcqSelect \<Rightarrow>
          if ok
          then (case fst (select_lock key db) of
                  Some (lockValue, lockTime) \<Rightarrow>
                    if lockValue = holder then (AcqRefresh, db, False) else (Idle, db, False)
                | None \<Rightarrow> (AcqInsert, db, False))
          else (Idle, db, False)
      | AcqRefresh \<Rightarrow>
          if ok then (HistCheck, snd (refresh_lock key holder db), False) else (Idle, db, False)
      | AcqInsert \<Rightarrow>
          if ok then (AcqVerify, snd (insert_lock key holder db), False) else (Idle, db, False)
      | AcqVerify \<Rightarrow>
          if ok
          then (case fst (select_lock key db) of
                  Some (v, t) \<Rightarrow> if v = holder then (HistCheck, db, False) else (Idle, db, False)
                | None \<Rightarrow> (Idle, db, False))
          else (Idle, db, False)
      | HistCheck \<Rightarrow>
          if ok \<and> \<not> fst (count_completed symbol stage db) > 0
          then (Invoke, db, False)
          else (RelSelect, db, False)
      | Invoke \<Rightarrow> if ok then (Executing, db, True) else (RelSelect, db, False)
      | Executing \<Rightarrow> (Executing, db, False)
      | RelSelect \<Rightarrow>
          if ok
          then (case fst (select_lock key db) of
                  Some (v, t) \<Rightarrow> if v = holder then (RelDelete, db, False) else (Idle, db, False)
                | None \<Rightarrow> (Idle, db, False))
          else (Idle, db, False)
      | RelDelete \<Rightarrow>
          if ok then (Idle, snd (delete_lock key db), False) else (Idle, db, False))"

text \<open>
  The callers together: the store, the point of each caller, the number of invocations of
  the executor so far, and the number of those that have ended leaving no completed row of
  the stage.
\<close>

record 'p race =
  r_store :: store
  r_pcs :: "'p \<Rightarrow> pc"
  r_invoked :: nat
  r_fruitless :: nat

text \<open>An event: a caller advances by one awaited statement (which throws or not); the
  executor that a caller invoked ends, having added rows to the history (with a result or
  an exception, which the block treats alike: it goes on to the release); time passes.\<close>

datatype 'p race_event = Advance 'p bool | ExecutorEnds 'p "tp_history_row list" | TimePasses nat

definition stage_done :: "string \<Rightarrow> nat \<Rightarrow> store \<Rightarrow> bool" where
  "stage_done symbol stage db = (fst (count_completed symbol stage db) > 0)"

fun race_step ::
  "('p \<Rightarrow> string) \<Rightarrow> string \<Rightarrow> string \<Rightarrow> nat \<Rightarrow> 'p race_event \<Rightarrow> 'p race \<Rightarrow> 'p race" where
  "race_step caller symbol side stage (Advance p ok) s =
     (case caller_step symbol side stage (caller p) ok (r_pcs s p) (r_store s) of
        (pc', db', invoked) \<Rightarrow>
          s\<lparr>r_store := db', r_pcs := (r_pcs s)(p := pc'),
            r_invoked := (if invoked then r_invoked s + 1 else r_invoked s)\<rparr>)"
| "race_step caller symbol side stage (ExecutorEnds p rows) s =
     (if r_pcs s p = Executing
      then (let db' = (r_store s)\<lparr>tp_history := tp_history (r_store s) @ rows\<rparr>
            in s\<lparr>r_store := db', r_pcs := (r_pcs s)(p := RelSelect),
                 r_fruitless := (if stage_done symbol stage db' then r_fruitless s
                                 else r_fruitless s + 1)\<rparr>)
      else s)"
| "race_step caller symbol side stage (TimePasses d) s =
     s\<lparr>r_store := (r_store s)\<lparr>clock := clock (r_store s) + int d\<rparr>\<rparr>"

text \<open>A run, and the runs in which the lease row, when there is one, is younger than the
  timeout whenever an event happens.\<close>

definition lease_fresh :: "string \<Rightarrow> store \<Rightarrow> bool" where
  "lease_fresh key db =
     (case system_config db key of
        None \<Rightarrow> True
      | Some (v, updated_at) \<Rightarrow> clock db - updated_at < LOCK_TIMEOUT_MS)"

fun race_run ::
  "('p \<Rightarrow> string) \<Rightarrow> string \<Rightarrow> string \<Rightarrow> nat \<Rightarrow> 'p race_event list \<Rightarrow> 'p race \<Rightarrow> 'p race" where
  "race_run caller symbol side stage [] s = s"
| "race_run caller symbol side stage (event # events) s =
     race_run caller symbol side stage events (race_step caller symbol side stage event s)"

fun timely ::
  "('p \<Rightarrow> string) \<Rightarrow> string \<Rightarrow> string \<Rightarrow> nat \<Rightarrow> 'p race_event list \<Rightarrow> 'p race \<Rightarrow> bool" where
  "timely caller symbol side stage [] s = True"
| "timely caller symbol side stage (event # events) s =
     (lease_fresh (lockKey symbol side stage) (r_store s) \<and>
      timely caller symbol side stage events (race_step caller symbol side stage event s))"

definition race_start :: "store \<Rightarrow> 'p race" where
  "race_start db = \<lparr>r_store = db, r_pcs = (\<lambda>p. Idle), r_invoked = 0, r_fruitless = 0\<rparr>"


subsection \<open>Auxiliary notions for the proofs about concurrent callers\<close>




subsection \<open>Runs of two callers used as examples\<close>



definition expiry_run :: "string race_event list" where
  "expiry_run =
     [Advance ''health-check'' True,
      Advance ''health-check'' True, Advance ''health-check'' True, Advance ''health-check'' True,
      Advance ''health-check'' True, Advance ''health-check'' True, Advance ''health-check'' True,
      Advance ''health-check'' True,
      TimePasses 30000,
      Advance ''ai-agent'' True,
      Advance ''ai-agent'' True, Advance ''ai-agent'' True, Advance ''ai-agent'' True,
      Advance ''ai-agent'' True, Advance ''ai-agent'' True, Advance ''ai-agent'' True,
      Advance ''ai-agent'' True]"

section \<open>Lemmas about the consistency checker\<close>

lemma checkDbPositions_eq:
  "checkDbPositions nc eps rows r =
     r\<lparr>orphanPositions := orphanPositions r @
          map (orphanOf nc eps) (filter (\<lambda>p. \<not> isTestData (pos_symbol p) \<and> isOrphan nc eps p) rows),
       testDataPositions := testDataPositions r @
          map (\<lambda>p. (pos_symbol p, pos_side p)) (filter (\<lambda>p. isTestData (pos_symbol p)) rows)\<rparr>"
  by (induction rows arbitrary: r) (simp_all add: Let_def isOrphan_def orphanOf_def)

lemma checkExchangePositions_eq:
  "checkExchangePositions nc rows eps r =
     r\<lparr>missingPositions := missingPositions r @
          map (\<lambda>e. (ex_contract e, \<bar>parseSize (ex_size e)\<bar>)) (filter (isMissing nc rows) eps)\<rparr>"
  by (induction eps arbitrary: r) (simp_all add: Let_def isMissing_def)

lemma checkPriceOrders_eq:
  "checkPriceOrders rows orders r =
     r\<lparr>orphanPriceOrders := orphanPriceOrders r @
          map orphanOrderOf (filter (\<lambda>order. \<not> hasPosition rows order) orders)\<rparr>"
  by (induction orders arbitrary: r) (simp_all add: Let_def orphanOrderOf_def hasPosition_def)

lemma checkConsistency_eq:
  "checkConsistency nc eps st =
     \<lparr>orphanPositions = map (orphanOf nc eps)
          (filter (\<lambda>p. \<not> isTestData (pos_symbol p) \<and> isOrphan nc eps p) (positions st)),
      orphanPriceOrders = map orphanOrderOf
          (filter (\<lambda>order. \<not> hasPosition (positions st) order) (activePriceOrders st)),
      testDataPositions = map (\<lambda>p. (pos_symbol p, pos_side p))
          (filter (\<lambda>p. isTestData (pos_symbol p)) (positions st)),
      missingPositions = map (\<lambda>e. (ex_contract e, \<bar>parseSize (ex_size e)\<bar>))
          (filter (isMissing nc (positions st)) eps)\<rparr>"
  by (simp add: checkConsistency_def checkDbPositions_eq checkExchangePositions_eq
      checkPriceOrders_eq emptyResult_def)

lemma cancel_ids_empty [simp]: "cancel_ids now {} orders = orders"
  by (simp add: cancel_ids_def)

lemma cancel_ids_twice: "cancel_ids now S (cancel_ids now T orders) = cancel_ids now (T \<union> S) orders"
  by (auto simp: cancel_ids_def)

lemma relatedIds_cancel_ids:
  "relatedIds symbol side (cancel_ids now S orders) = relatedIds symbol side orders - S"
  by (auto simp: relatedIds_def cancel_ids_def image_iff)

lemma tracked_init: "tracked now (price_orders st) (cancel_calls st) {} st"
  by (simp add: tracked_def)

lemma tracked_cancelAndMark:
  assumes "tracked now orders0 calls0 S st"
  shows "tracked now orders0 calls0 (insert orderId S) (cancelAndMark now orderId st)"
proof -
  have "updatePriceOrderStatus now orderId st' = st'\<lparr>price_orders := cancel_ids now {orderId} (price_orders st')\<rparr>" for st'
    by (simp add: updatePriceOrderStatus_def cancel_ids_def)
  with assms show ?thesis
    by (auto simp: tracked_def cancelAndMark_def cancel_ids_twice)
qed

lemma tracked_fold_cancelAndMark:
  "tracked now orders0 calls0 S st \<Longrightarrow>
   tracked now orders0 calls0 (S \<union> set ids) (fold (cancelAndMark now) ids st)"
proof (induction ids arbitrary: S st)
  case Nil
  then show ?case by simp
next
  case (Cons a ids)
  from Cons.IH [OF tracked_cancelAndMark [OF Cons.prems, of a]]
  show ?case by simp
qed

lemma tracked_cancelRelated:
  assumes "tracked now orders0 calls0 S st"
  shows "tracked now orders0 calls0 (S \<union> relatedIds symbol side orders0)
           (cancelRelatedPriceOrders now symbol side st)"
proof -
  let ?ids = "map po_order_id (filter (\<lambda>order. po_symbol order = symbol \<and> po_side order = side \<and>
                           po_status order = ''active'') (price_orders st))"
  have "set ?ids = relatedIds symbol side (price_orders st)"
    by (auto simp: relatedIds_def)
  also have "\<dots> = relatedIds symbol side orders0 - S"
    using assms by (simp add: tracked_def relatedIds_cancel_ids)
  finally have "S \<union> set ?ids = S \<union> relatedIds symbol side orders0" by auto
  with tracked_fold_cancelAndMark [OF assms, of ?ids] show ?thesis
    by (simp add: cancelRelatedPriceOrders_def)
qed

lemma tracked_removePosition:
  "tracked now orders0 calls0 S st \<Longrightarrow> tracked now orders0 calls0 S (removePosition symbol side st)"
  by (simp add: tracked_def removePosition_def)

lemma positions_cancelAndMark [simp]: "positions (cancelAndMark now orderId st) = positions st"
  by (simp add: cancelAndMark_def updatePriceOrderStatus_def)

lemma positions_fold_cancelAndMark [simp]:
  "positions (fold (cancelAndMark now) ids st) = positions st"
  by (induction ids arbitrary: st) simp_all

lemma positions_cancelRelated [simp]:
  "positions (cancelRelatedPriceOrders now symbol side st) = positions st"
  by (simp add: cancelRelatedPriceOrders_def)

lemma keep_keep: "keep K (keep L rows) = keep (L \<union> K) rows"
  by (auto simp: keep_def intro: filter_cong)

lemma positions_removePosition:
  "positions (removePosition symbol side st) = keep {(symbol, side)} (positions st)"
  by (simp add: removePosition_def keep_def)

lemma fold_fixOrphanPosition:
  "tracked now orders0 calls0 S st \<Longrightarrow>
   tracked now orders0 calls0
      (S \<union> (\<Union>key \<in> zeroKeys orphans. relatedIds (fst key) (snd key) orders0))
      (fold (fixOrphanPosition now) orphans st) \<and>
   positions (fold (fixOrphanPosition now) orphans st) = keep (zeroKeys orphans) (positions st)"
proof (induction orphans arbitrary: S st)
  case Nil
  then show ?case by (simp add: zeroKeys_def keep_def)
next
  case (Cons a orphans)
  show ?case
  proof (cases "op_exchangeSize a = 0")
    case True
    let ?st = "fixOrphanPosition now a st"
    have t: "tracked now orders0 calls0 (S \<union> relatedIds (op_symbol a) (op_side a) orders0) ?st"
      using True Cons.prems
      by (simp add: fixOrphanPosition_def tracked_cancelRelated tracked_removePosition)
    have p: "positions ?st = keep {(op_symbol a, op_side a)} (positions st)"
      using True by (simp add: fixOrphanPosition_def positions_removePosition)
    have z: "zeroKeys (a # orphans) = insert (op_symbol a, op_side a) (zeroKeys orphans)"
      using True by (auto simp: zeroKeys_def)
    from Cons.IH [OF t] show ?thesis
      by (simp add: p z keep_keep Un_assoc Un_commute)
  next
    case False
    then have z: "zeroKeys (a # orphans) = zeroKeys orphans"
      by (auto simp: zeroKeys_def)
    from False Cons.IH [OF Cons.prems] show ?thesis
      by (simp add: fixOrphanPosition_def z)
  qed
qed

lemma fold_orphanPriceOrders:
  "tracked now orders0 calls0 S st \<Longrightarrow>
   tracked now orders0 calls0 (S \<union> oo_order_id ` set orphans)
      (fold (\<lambda>orphan. cancelAndMark now (oo_order_id orphan)) orphans st) \<and>
   positions (fold (\<lambda>orphan. cancelAndMark now (oo_order_id orphan)) orphans st) = positions st"
proof (induction orphans arbitrary: S st)
  case Nil
  then show ?case by simp
next
  case (Cons a orphans)
  from Cons.IH [OF tracked_cancelAndMark [OF Cons.prems, of "oo_order_id a"]]
  show ?case by simp
qed

lemma fold_fixTestData:
  "tracked now orders0 calls0 S st \<Longrightarrow>
   tracked now orders0 calls0
      (S \<union> (\<Union>key \<in> set tests. relatedIds (fst key) (snd key) orders0))
      (fold (fixTestData now) tests st) \<and>
   positions (fold (fixTestData now) tests st) = keep (set tests) (positions st)"
proof (induction tests arbitrary: S st)
  case Nil
  then show ?case by (simp add: keep_def)
next
  case (Cons a tests)
  let ?st = "fixTestData now a st"
  have t: "tracked now orders0 calls0 (S \<union> relatedIds (fst a) (snd a) orders0) ?st"
    using Cons.prems
    by (simp add: fixTestData_def tracked_cancelRelated tracked_removePosition)
  have p: "positions ?st = keep {a} (positions st)"
    by (simp add: fixTestData_def positions_removePosition)
  from Cons.IH [OF t] show ?case
    by (simp add: p keep_keep Un_assoc Un_commute)
qed

lemma fixInconsistencies_tracked:
  "tracked now (price_orders st) (cancel_calls st) (cancelledIds data (price_orders st))
     (fixInconsistencies now data st)"
proof -
  let ?os = "price_orders st"
  let ?t = "tracked now ?os (cancel_calls st)"
  let ?st1 = "fold (fixOrphanPosition now) (orphanPositions data) st"
  let ?st2 = "fold (\<lambda>orphan. cancelAndMark now (oo_order_id orphan)) (orphanPriceOrders data) ?st1"
  from fold_fixOrphanPosition [OF tracked_init]
  have 1: "?t ({} \<union> (\<Union>key \<in> zeroKeys (orphanPositions data). relatedIds (fst key) (snd key) ?os)) ?st1"
    by blast
  from fold_orphanPriceOrders [OF 1]
  have 2: "?t ({} \<union> (\<Union>key \<in> zeroKeys (orphanPositions data). relatedIds (fst key) (snd key) ?os)
               \<union> oo_order_id ` set (orphanPriceOrders data)) ?st2"
    by blast
  from fold_fixTestData [OF 2, of "testDataPositions data"]
  have 3: "?t ({} \<union> (\<Union>key \<in> zeroKeys (orphanPositions data). relatedIds (fst key) (snd key) ?os)
               \<union> oo_order_id ` set (orphanPriceOrders data)
               \<union> (\<Union>key \<in> set (testDataPositions data). relatedIds (fst key) (snd key) ?os))
             (fixInconsistencies now data st)"
    by (simp add: fixInconsistencies_def)
  have "{} \<union> (\<Union>key \<in> zeroKeys (orphanPositions data). relatedIds (fst key) (snd key) ?os)
               \<union> oo_order_id ` set (orphanPriceOrders data)
               \<union> (\<Union>key \<in> set (testDataPositions data). relatedIds (fst key) (snd key) ?os)
        = cancelledIds data ?os"
    unfolding cancelledIds_def removedKeys_def zeroKeys_def by blast
  with 3 show ?thesis by simp
qed

lemma fixInconsistencies_positions:
  "positions (fixInconsistencies now data st) = keep (removedKeys data) (positions st)"
proof -
  let ?st1 = "fold (fixOrphanPosition now) (orphanPositions data) st"
  let ?st2 = "fold (\<lambda>orphan. cancelAndMark now (oo_order_id orphan)) (orphanPriceOrders data) ?st1"
  have 1: "positions ?st1 = keep (zeroKeys (orphanPositions data)) (positions st)"
    using fold_fixOrphanPosition [OF tracked_init] by blast
  have 2: "positions ?st2 = positions ?st1"
    using fold_orphanPriceOrders [OF tracked_init] by blast
  have 3: "positions (fixInconsistencies now data st) = keep (set (testDataPositions data)) (positions ?st2)"
    using fold_fixTestData [OF tracked_init] by (simp add: fixInconsistencies_def)
  show ?thesis
    by (simp add: 1 2 3 keep_keep removedKeys_def zeroKeys_def)
qed

lemma fixInconsistencies_price_orders:
  "price_orders (fixInconsistencies now data st) =
     cancel_ids now (cancelledIds data (price_orders st)) (price_orders st)"
  using fixInconsistencies_tracked [of now st data] by (simp add: tracked_def)

lemma keep_absorb: "K \<subseteq> L \<Longrightarrow> keep K (keep L rows) = keep L rows"
  by (simp add: keep_keep Un_absorb2)

lemma removePosition_keep:
  "removePosition symbol side st = st\<lparr>positions := keep {(symbol, side)} (positions st)\<rparr>"
  by (simp add: removePosition_def keep_def)

lemma relatedIds_Nil [simp]: "relatedIds symbol side [] = {}"
  by (simp add: relatedIds_def)

lemma relatedIds_Cons:
  "relatedIds symbol side (order # orders) =
     (if po_symbol order = symbol \<and> po_side order = side \<and> po_status order = ''active''
      then insert (po_order_id order) (relatedIds symbol side orders)
      else relatedIds symbol side orders)"
  by (auto simp: relatedIds_def)

lemma cancelRelated_none:
  assumes "relatedIds symbol side (price_orders st) = {}"
  shows "cancelRelatedPriceOrders now symbol side st = st"
proof -
  have "set (map po_order_id (filter (\<lambda>order. po_symbol order = symbol \<and> po_side order = side \<and>
                           po_status order = ''active'') (price_orders st))) = {}"
    using assms by (auto simp: relatedIds_def)
  then have "map po_order_id (filter (\<lambda>order. po_symbol order = symbol \<and> po_side order = side \<and>
                           po_status order = ''active'') (price_orders st)) = []"
    by (simp only: set_empty)
  then show ?thesis by (simp add: cancelRelatedPriceOrders_def)
qed

lemma fold_fixOrphanPosition_none:
  "(\<forall>key \<in> zeroKeys orphans. relatedIds (fst key) (snd key) (price_orders st) = {}) \<Longrightarrow>
   fold (fixOrphanPosition now) orphans st = st\<lparr>positions := keep (zeroKeys orphans) (positions st)\<rparr>"
proof (induction orphans arbitrary: st)
  case Nil
  then show ?case by (simp add: zeroKeys_def keep_def)
next
  case (Cons a orphans)
  show ?case
  proof (cases "op_exchangeSize a = 0")
    case True
    have z: "zeroKeys (a # orphans) = insert (op_symbol a, op_side a) (zeroKeys orphans)"
      using True by (auto simp: zeroKeys_def)
    have r: "relatedIds (op_symbol a) (op_side a) (price_orders (removePosition (op_symbol a) (op_side a) st)) = {}"
      using Cons.prems z by (simp add: removePosition_def)
    have s: "fixOrphanPosition now a st = removePosition (op_symbol a) (op_side a) st"
      using True cancelRelated_none [OF r] by (simp add: fixOrphanPosition_def)
    have "\<forall>key \<in> zeroKeys orphans. relatedIds (fst key) (snd key)
             (price_orders (removePosition (op_symbol a) (op_side a) st)) = {}"
      using Cons.prems z by (simp add: removePosition_def)
    from Cons.IH [OF this] show ?thesis
      by (simp add: s z removePosition_keep keep_keep)
  next
    case False
    then have z: "zeroKeys (a # orphans) = zeroKeys orphans"
      by (auto simp: zeroKeys_def)
    from False Cons.IH Cons.prems show ?thesis
      by (simp add: fixOrphanPosition_def z)
  qed
qed

lemma fold_fixTestData_none:
  "(\<forall>key \<in> set tests. relatedIds (fst key) (snd key) (price_orders st) = {}) \<Longrightarrow>
   fold (fixTestData now) tests st = st\<lparr>positions := keep (set tests) (positions st)\<rparr>"
proof (induction tests arbitrary: st)
  case Nil
  then show ?case by (simp add: keep_def)
next
  case (Cons a tests)
  have r: "relatedIds (fst a) (snd a) (price_orders (removePosition (fst a) (snd a) st)) = {}"
    using Cons.prems by (simp add: removePosition_def)
  have s: "fixTestData now a st = removePosition (fst a) (snd a) st"
    using cancelRelated_none [OF r] by (simp add: fixTestData_def)
  have "\<forall>key \<in> set tests. relatedIds (fst key) (snd key)
             (price_orders (removePosition (fst a) (snd a) st)) = {}"
    using Cons.prems by (simp add: removePosition_def)
  from Cons.IH [OF this] show ?case
    by (simp add: s removePosition_keep keep_keep)
qed

lemma fold_orphanPriceOrders_eq:
  "fold (\<lambda>orphan. cancelAndMark now (oo_order_id orphan)) orphans st =
     st\<lparr>price_orders := cancel_ids now (oo_order_id ` set orphans) (price_orders st),
        cancel_calls := cancel_calls st @ map oo_order_id orphans\<rparr>"
proof (induction orphans arbitrary: st)
  case Nil
  then show ?case by simp
next
  case (Cons a orphans)
  have "cancelAndMark now (oo_order_id a) st =
          st\<lparr>price_orders := cancel_ids now {oo_order_id a} (price_orders st),
             cancel_calls := cancel_calls st @ [oo_order_id a]\<rparr>"
    by (simp add: cancelAndMark_def updatePriceOrderStatus_def cancel_ids_def)
  then show ?case
    by (simp add: Cons.IH cancel_ids_twice)
qed

lemma relatedIds_restamp:
  "relatedIds symbol side (restamp now S orders) = relatedIds symbol side orders"
  by (induction orders) (auto simp: restamp_def relatedIds_Cons)

lemma cancel_ids_restamp:
  "S \<subseteq> T \<Longrightarrow> cancel_ids n2 S (cancel_ids n1 T orders) = restamp n2 S (cancel_ids n1 T orders)"
  by (auto simp: cancel_ids_def restamp_def)

lemma fixInconsistencies_again:
  "fixInconsistencies n2 data (fixInconsistencies n1 data st) =
     (fixInconsistencies n1 data st)
       \<lparr>price_orders := restamp n2 (oo_order_id ` set (orphanPriceOrders data))
                          (price_orders (fixInconsistencies n1 data st)),
        cancel_calls := cancel_calls (fixInconsistencies n1 data st) @
                          map oo_order_id (orphanPriceOrders data)\<rparr>"
proof -
  let ?st1 = "fixInconsistencies n1 data st"
  let ?os = "price_orders st"
  let ?S = "cancelledIds data ?os"
  let ?ids = "oo_order_id ` set (orphanPriceOrders data)"
  have os1: "price_orders ?st1 = cancel_ids n1 ?S ?os"
    by (rule fixInconsistencies_price_orders)
  have ps1: "positions ?st1 = keep (removedKeys data) (positions st)"
    by (rule fixInconsistencies_positions)
  have none: "relatedIds (fst key) (snd key) (price_orders ?st1) = {}"
    if "key \<in> removedKeys data" for key
    using that by (auto simp: os1 relatedIds_cancel_ids cancelledIds_def)
  have rk: "removedKeys data = zeroKeys (orphanPositions data) \<union> set (testDataPositions data)"
    by (simp add: removedKeys_def zeroKeys_def)
  have a: "fold (fixOrphanPosition n2) (orphanPositions data) ?st1 = ?st1"
  proof -
    have "\<forall>key \<in> zeroKeys (orphanPositions data). relatedIds (fst key) (snd key) (price_orders ?st1) = {}"
      using none rk by blast
    from fold_fixOrphanPosition_none [OF this]
    have "fold (fixOrphanPosition n2) (orphanPositions data) ?st1 =
            ?st1\<lparr>positions := keep (zeroKeys (orphanPositions data)) (positions ?st1)\<rparr>" .
    moreover have "keep (zeroKeys (orphanPositions data)) (positions ?st1) = positions ?st1"
      by (simp add: ps1 rk keep_absorb)
    ultimately show ?thesis by simp
  qed
  let ?st2 = "?st1\<lparr>price_orders := restamp n2 ?ids (price_orders ?st1),
                   cancel_calls := cancel_calls ?st1 @ map oo_order_id (orphanPriceOrders data)\<rparr>"
  have "?ids \<subseteq> ?S" by (auto simp: cancelledIds_def)
  then have b: "fold (\<lambda>orphan. cancelAndMark n2 (oo_order_id orphan)) (orphanPriceOrders data) ?st1 = ?st2"
    by (simp add: fold_orphanPriceOrders_eq os1 cancel_ids_restamp)
  have c: "fold (fixTestData n2) (testDataPositions data) ?st2 = ?st2"
  proof -
    have "\<forall>key \<in> set (testDataPositions data). relatedIds (fst key) (snd key) (price_orders ?st2) = {}"
      using none rk by (simp add: relatedIds_restamp)
    from fold_fixTestData_none [OF this]
    have "fold (fixTestData n2) (testDataPositions data) ?st2 =
            ?st2\<lparr>positions := keep (set (testDataPositions data)) (positions ?st2)\<rparr>" .
    moreover have "keep (set (testDataPositions data)) (positions ?st2) = positions ?st2"
      by (simp add: ps1 rk keep_absorb)
    ultimately show ?thesis by simp
  qed
  have "fixInconsistencies n2 data ?st1 =
          fold (fixTestData n2) (testDataPositions data)
            (fold (\<lambda>orphan. cancelAndMark n2 (oo_order_id orphan)) (orphanPriceOrders data)
               (fold (fixOrphanPosition n2) (orphanPositions data) ?st1))"
    by (simp add: fixInconsistencies_def)
  then show ?thesis by (simp only: a b c)
qed

lemma in_relatedIds:
  "x \<in> relatedIds symbol side orders \<longleftrightarrow>
     (\<exists>order \<in> set orders. po_symbol order = symbol \<and> po_side order = side \<and>
        po_status order = ''active'' \<and> po_order_id order = x)"
  unfolding relatedIds_def by blast

lemma in_removedKeys:
  "key \<in> removedKeys data \<longleftrightarrow>
     (\<exists>orphan. orphan \<in> set (orphanPositions data) \<and> op_exchangeSize orphan = 0 \<and>
          key = (op_symbol orphan, op_side orphan)) \<or> key \<in> set (testDataPositions data)"
  unfolding removedKeys_def by blast

lemma in_orphanPositions_check:
  "orphan \<in> set (orphanPositions (checkConsistency nc eps st)) \<longleftrightarrow>
     (\<exists>p \<in> set (positions st). \<not> isTestData (pos_symbol p) \<and> isOrphan nc eps p \<and>
        orphan = orphanOf nc eps p)"
  by (simp add: checkConsistency_eq) blast

lemma in_testDataPositions_check:
  "key \<in> set (testDataPositions (checkConsistency nc eps st)) \<longleftrightarrow>
     (\<exists>p \<in> set (positions st). isTestData (pos_symbol p) \<and> key = (pos_symbol p, pos_side p))"
  by (simp add: checkConsistency_eq) blast

lemma in_orphanPriceOrders_check:
  "x \<in> oo_order_id ` set (orphanPriceOrders (checkConsistency nc eps st)) \<longleftrightarrow>
     (\<exists>order \<in> set (price_orders st). po_status order = ''active'' \<and>
        \<not> hasPosition (positions st) order \<and> po_order_id order = x)"
  by (simp add: checkConsistency_eq activePriceOrders_def image_iff orphanOrderOf_def) blast

lemma in_orphanPriceOrders_list_check:
  "x \<in> set (orphanPriceOrders (checkConsistency nc eps st)) \<longleftrightarrow>
     (\<exists>order. order \<in> set (activePriceOrders st) \<and>
        \<not> hasPosition (positions st) order \<and> x = orphanOrderOf order)"
  by (simp add: checkConsistency_eq) blast

lemma removedKeys_check:
  "key \<in> removedKeys (checkConsistency nc eps st) \<longleftrightarrow>
     (\<exists>p \<in> set (positions st). key = (pos_symbol p, pos_side p) \<and>
        (isTestData (pos_symbol p) \<or> exchangeSizeOf nc eps (pos_symbol p) = 0))"
  (is "?L = ?R")
proof
  assume ?L
  then show ?R
    unfolding in_removedKeys in_orphanPositions_check in_testDataPositions_check
    by (auto simp: orphanOf_def)
next
  assume ?R
  then obtain p where p: "p \<in> set (positions st)" "key = (pos_symbol p, pos_side p)"
    "isTestData (pos_symbol p) \<or> exchangeSizeOf nc eps (pos_symbol p) = 0" by blast
  show ?L
  proof (cases "isTestData (pos_symbol p)")
    case True
    with p show ?thesis
      unfolding in_removedKeys in_testDataPositions_check by blast
  next
    case False
    with p have z: "exchangeSizeOf nc eps (pos_symbol p) = 0" by simp
    then have "isOrphan nc eps p" by (simp add: isOrphan_def)
    with p False have "orphanOf nc eps p \<in> set (orphanPositions (checkConsistency nc eps st))"
      unfolding in_orphanPositions_check by blast
    moreover have "op_exchangeSize (orphanOf nc eps p) = 0"
        "key = (op_symbol (orphanOf nc eps p), op_side (orphanOf nc eps p))"
      using z p by (simp_all add: orphanOf_def)
    ultimately show ?thesis
      unfolding in_removedKeys by blast
  qed
qed

lemma survives:
  assumes "p \<in> set (positions st)" "\<not> isTestData (pos_symbol p)"
    "exchangeSizeOf nc eps (pos_symbol p) \<noteq> 0"
  shows "(pos_symbol p, pos_side p) \<notin> removedKeys (checkConsistency nc eps st)"
  using assms unfolding removedKeys_check by auto

lemma cancelledIds_check:
  "x \<in> cancelledIds (checkConsistency nc eps st) (price_orders st) \<longleftrightarrow>
     (\<exists>order \<in> set (price_orders st). po_status order = ''active'' \<and> po_order_id order = x \<and>
         (\<not> hasPosition (positions st) order \<or>
          (po_symbol order, po_side order) \<in> removedKeys (checkConsistency nc eps st)))"
proof -
  have "x \<in> (\<Union>key \<in> K. relatedIds (fst key) (snd key) (price_orders st)) \<longleftrightarrow>
          (\<exists>order \<in> set (price_orders st). po_status order = ''active'' \<and> po_order_id order = x \<and>
             (po_symbol order, po_side order) \<in> K)" for K
    unfolding in_relatedIds UN_iff by force
  then show ?thesis
    unfolding cancelledIds_def Un_iff in_orphanPriceOrders_check by blast
qed

lemma hasPosition_iff:
  "hasPosition rows order \<longleftrightarrow>
     (\<exists>p \<in> set rows. pos_symbol p = po_symbol order \<and> pos_side p = po_side order)"
  by (simp add: hasPosition_def list_ex_iff)

section \<open>Lemmas about the executor\<close>

lemma db_execute_ok: "faults db = [] \<Longrightarrow> db_execute stmt db = (Inr (fst (stmt db)), snd (stmt db))"
  by (simp add: db_execute_def split: prod.splits)

lemma faults_delete_expired [simp]: "faults (snd (delete_expired key db)) = faults db"
  by (simp add: delete_expired_def split: option.splits prod.splits)

lemma faults_insert_lock [simp]: "faults (snd (insert_lock key holder db)) = faults db"
  by (simp add: insert_lock_def split: option.splits)

lemma faults_refresh_lock [simp]: "faults (snd (refresh_lock key holder db)) = faults db"
  by (simp add: refresh_lock_def split: option.splits prod.splits)

lemma faults_select_lock [simp]: "faults (snd (select_lock key db)) = faults db"
  by (simp add: select_lock_def)

lemma tryAcquire_ok:
  assumes "faults db = []"
  shows "tryAcquire key holder db =
           (if lease_free key holder db then (True, acquired key holder db) else (False, db))"
proof (cases "system_config db key")
  case None
  with assms show ?thesis
    by (simp add: tryAcquire_def db_execute_ok delete_expired_def select_lock_def
        insert_lock_def lease_free_def acquired_def)
next
  case (Some row)
  obtain v t where row: "row = (v, t)" by (cases row)
  show ?thesis
  proof (cases "clock db - t \<ge> LOCK_TIMEOUT_MS")
    case True
    with assms Some row show ?thesis
      by (simp add: tryAcquire_def db_execute_ok delete_expired_def select_lock_def
          insert_lock_def lease_free_def acquired_def)
  next
    case False
    with assms Some row show ?thesis
      by (simp add: tryAcquire_def db_execute_ok delete_expired_def select_lock_def
          refresh_lock_def lease_free_def acquired_def)
  qed
qed

lemma filter_nonempty_iff: "(filter P xs = []) = (\<not> list_ex P xs)"
  by (simp add: filter_empty_conv list_ex_iff)

lemma hasRecentExecution_ok:
  "faults db = [] \<Longrightarrow>
   hasRecentExecution symbol stage 30 db = (recentlyCompleted symbol stage db, db)"
  by (simp add: hasRecentExecution_def db_execute_ok count_recent_def recentlyCompleted_def
      filter_nonempty_iff)

lemma release_ok:
  "faults db = [] \<Longrightarrow>
   release key holder db =
     (case system_config db key of
        None \<Rightarrow> db
      | Some (v, t) \<Rightarrow> if v = holder then released key db else db)"
  by (simp add: release_def db_execute_ok select_lock_def delete_lock_def released_def
      split: option.splits)

lemma underLease_ok:
  "faults db = [] \<Longrightarrow>
   underLease deps caller symbol stage (acc, db) =
     (if stageCompleted symbol stage db
      then (Proceed, skip_with acc symbol stage ''already_executed'', db)
      else afterExecutor deps symbol stage acc db)"
  by (simp add: underLease_def db_execute_ok count_completed_def stageCompleted_def
      filter_nonempty_iff afterExecutor_def Let_def)

lemma afterExecutor_store:
  "snd (snd (afterExecutor deps symbol stage acc db)) =
     db\<lparr>tp_history := tp_history db @
            ex_rows (partialTakeProfitTool_execute deps
                  (replace_first (replace_first symbol ''_USDT'' '''') ''USDT'' '''')
                  (stage_digit stage) db)\<rparr>"
  by (simp add: afterExecutor_def Let_def split: sum.splits)

lemma runStage_ok:
  assumes "faults db = []"
  shows "runStage deps caller symbol side stage (acc, db) =
     (if recentlyCompleted symbol stage db
      then (Continue, skip_with acc symbol stage ''recently_executed'', db)
      else if \<not> lease_free (lockKey symbol side stage) caller db
      then (Continue, skip_with acc symbol stage ''lock_busy'', db)
      else if stageCompleted symbol stage db
      then (Proceed, skip_with acc symbol stage ''already_executed'',
            released (lockKey symbol side stage) db)
      else (case afterExecutor deps symbol stage acc (acquired (lockKey symbol side stage) caller db) of
              (fl, acc3, db3) \<Rightarrow> (fl, acc3, released (lockKey symbol side stage) db3)))"
proof -
  let ?key = "lockKey symbol side stage"
  let ?dbA = "acquired ?key caller db"
  have fA: "faults ?dbA = []" using assms by (simp add: acquired_def)
  have sA: "stageCompleted symbol stage ?dbA = stageCompleted symbol stage db"
    by (simp add: stageCompleted_def acquired_def)
  have rel1: "release ?key caller ?dbA = released ?key db"
    using fA by (simp add: release_ok) (simp add: acquired_def released_def)
  have rel2: "release ?key caller (snd (snd (afterExecutor deps symbol stage acc ?dbA))) =
                released ?key (snd (snd (afterExecutor deps symbol stage acc ?dbA)))"
    using fA by (simp add: release_ok afterExecutor_store) (simp add: acquired_def)
  obtain fl acc3 db3 where ae: "afterExecutor deps symbol stage acc ?dbA = (fl, acc3, db3)"
    by (cases "afterExecutor deps symbol stage acc ?dbA")
  from rel2 ae have rel3: "release ?key caller db3 = released ?key db3" by simp
  show ?thesis
    using assms fA
    by (simp add: runStage_def hasRecentExecution_ok tryAcquire_ok underLease_ok sA rel1 rel3 ae)
qed



lemma positionsLoop_next:
  "(\<And>e. fst (evalPosition deps caller cfg pos accdb) \<noteq> Throw e) \<Longrightarrow>
   positionsLoop deps caller cfg (pos # rest) accdb =
     positionsLoop deps caller cfg rest (snd (evalPosition deps caller cfg pos accdb))"
  by (cases "evalPosition deps caller cfg pos accdb") (auto split: flow.splits)



section \<open>Lemmas about concurrent callers\<close>



















subsection \<open>A caller alone\<close>

text \<open>A caller that goes through the block with no other caller in between, on a store
  that answers its statements, leaves the store that \<open>runStage\<close> leaves: the two
  renderings of the block agree.\<close>

lemma advance_at:
  "race_step caller symbol side stage (Advance p True) \<lparr>r_store = db, r_pcs = f, r_invoked = n, r_fruitless = m\<rparr> =
     (case caller_step symbol side stage (caller p) True (f p) db of
        (pc', db', invoked) \<Rightarrow>
          \<lparr>r_store = db', r_pcs = f(p := pc'), r_invoked = (if invoked then n + 1 else n), r_fruitless = m\<rparr>)"
  by (simp split: prod.splits)

lemma solo_run_agrees:
  assumes f: "faults db = []" and l: "system_config db (lockKey symbol side stage) = None"
    and r: "\<not> recentlyCompleted symbol stage db" and c: "\<not> stageCompleted symbol stage db"
  shows "r_store (race_run caller symbol side stage
            (replicate 8 (Advance p True) @
             ExecutorEnds p (ex_rows (partialTakeProfitTool_execute deps
                (replace_first (replace_first symbol ''_USDT'' '''') ''USDT'' '''')
                (stage_digit stage) (acquired (lockKey symbol side stage) (caller p) db))) #
             replicate 2 (Advance p True))
            (race_start db)) =
         snd (snd (runStage deps (caller p) symbol side stage (acc, db)))"
proof -
  let ?key = "lockKey symbol side stage"
  let ?A = "Advance p True :: 'a race_event"
  let ?step = "race_step caller symbol side stage"
  let ?dbA = "acquired ?key (caller p) db"
  let ?rows = "ex_rows (partialTakeProfitTool_execute deps
                (replace_first (replace_first symbol ''_USDT'' '''') ''USDT'' '''')
                (stage_digit stage) ?dbA)"
  let ?I = "(\<lambda>q. Idle) :: 'a \<Rightarrow> pc"
  have lf: "lease_free ?key (caller p) db"
    using l by (simp add: lease_free_def)
  have nr: "\<not> fst (count_recent symbol stage (clock db - 30 * 1000) db) > 0"
    using r by (simp add: recentlyCompleted_def count_recent_def filter_nonempty_iff)
  have nc: "\<not> fst (count_completed symbol stage ?dbA) > 0"
    using c by (simp add: stageCompleted_def count_completed_def filter_nonempty_iff acquired_def)
  have s1: "?step ?A (race_start db) = \<lparr>r_store = db, r_pcs = ?I(p := Guard), r_invoked = 0, r_fruitless = 0\<rparr>"
    by (simp add: race_start_def caller_step_def Let_def)
  have s2: "?step ?A \<lparr>r_store = db, r_pcs = ?I(p := Guard), r_invoked = 0, r_fruitless = 0\<rparr> =
       \<lparr>r_store = db, r_pcs = ?I(p := AcqDelete), r_invoked = 0, r_fruitless = 0\<rparr>"
    using nr by (simp add: advance_at caller_step_def Let_def)
  have s3: "?step ?A \<lparr>r_store = db, r_pcs = ?I(p := AcqDelete), r_invoked = 0, r_fruitless = 0\<rparr> =
       \<lparr>r_store = db, r_pcs = ?I(p := AcqSelect), r_invoked = 0, r_fruitless = 0\<rparr>"
    using l by (simp add: advance_at caller_step_def Let_def delete_expired_def)
  have s4: "?step ?A \<lparr>r_store = db, r_pcs = ?I(p := AcqSelect), r_invoked = 0, r_fruitless = 0\<rparr> =
       \<lparr>r_store = db, r_pcs = ?I(p := AcqInsert), r_invoked = 0, r_fruitless = 0\<rparr>"
    using l by (simp add: advance_at caller_step_def Let_def select_lock_def)
  have s5: "?step ?A \<lparr>r_store = db, r_pcs = ?I(p := AcqInsert), r_invoked = 0, r_fruitless = 0\<rparr> =
       \<lparr>r_store = ?dbA, r_pcs = ?I(p := AcqVerify), r_invoked = 0, r_fruitless = 0\<rparr>"
    using l by (simp add: advance_at caller_step_def Let_def insert_lock_def acquired_def)
  have s6: "?step ?A \<lparr>r_store = ?dbA, r_pcs = ?I(p := AcqVerify), r_invoked = 0, r_fruitless = 0\<rparr> =
       \<lparr>r_store = ?dbA, r_pcs = ?I(p := HistCheck), r_invoked = 0, r_fruitless = 0\<rparr>"
    by (simp add: advance_at caller_step_def Let_def select_lock_def acquired_def)
  have s7: "?step ?A \<lparr>r_store = ?dbA, r_pcs = ?I(p := HistCheck), r_invoked = 0, r_fruitless = 0\<rparr> =
       \<lparr>r_store = ?dbA, r_pcs = ?I(p := Invoke), r_invoked = 0, r_fruitless = 0\<rparr>"
    using nc by (simp add: advance_at caller_step_def Let_def)
  have s8: "?step ?A \<lparr>r_store = ?dbA, r_pcs = ?I(p := Invoke), r_invoked = 0, r_fruitless = 0\<rparr> =
       \<lparr>r_store = ?dbA, r_pcs = ?I(p := Executing), r_invoked = 1, r_fruitless = 0\<rparr>"
    by (simp add: advance_at caller_step_def Let_def)
  let ?dbE = "?dbA\<lparr>tp_history := tp_history ?dbA @ ?rows\<rparr>"
  obtain m where s9: "?step (ExecutorEnds p ?rows)
        \<lparr>r_store = ?dbA, r_pcs = ?I(p := Executing), r_invoked = 1, r_fruitless = 0\<rparr> =
       \<lparr>r_store = ?dbE, r_pcs = ?I(p := RelSelect), r_invoked = 1, r_fruitless = m\<rparr>"
    by (simp add: Let_def)
  have s10: "?step ?A \<lparr>r_store = ?dbE, r_pcs = ?I(p := RelSelect), r_invoked = 1, r_fruitless = m\<rparr> =
       \<lparr>r_store = ?dbE, r_pcs = ?I(p := RelDelete), r_invoked = 1, r_fruitless = m\<rparr>"
    by (simp add: advance_at caller_step_def Let_def select_lock_def acquired_def)
  have s11: "?step ?A \<lparr>r_store = ?dbE, r_pcs = ?I(p := RelDelete), r_invoked = 1, r_fruitless = m\<rparr> =
       \<lparr>r_store = released ?key ?dbE, r_pcs = ?I(p := Idle), r_invoked = 1, r_fruitless = m\<rparr>"
    by (simp add: advance_at caller_step_def Let_def delete_lock_def released_def)
  have rep8: "replicate 8 ?A = [?A, ?A, ?A, ?A, ?A, ?A, ?A, ?A]"
    and rep2: "replicate 2 ?A = [?A, ?A]"
    by (simp_all add: eval_nat_numeral)
  have run: "race_run caller symbol side stage
            (replicate 8 ?A @ ExecutorEnds p ?rows # replicate 2 ?A) (race_start db) =
        \<lparr>r_store = released ?key ?dbE, r_pcs = ?I(p := Idle), r_invoked = 1, r_fruitless = m\<rparr>"
    by (simp only: rep8 rep2 append.simps race_run.simps
        s1 s2 s3 s4 s5 s6 s7 s8 s9 s10 s11)
  have seq: "snd (snd (runStage deps (caller p) symbol side stage (acc, db))) = released ?key ?dbE"
    using f lf r c
    by (simp add: runStage_ok afterExecutor_def Let_def released_def split: sum.splits)
  show ?thesis by (simp only: run seq race.simps)
qed

section \<open>The consistency checker: classification and repair\<close>

subsection \<open>Classification of the local positions\<close>




subsection \<open>What the repair leaves alone\<close>

text \<open>
  Claim C9. \<open>fixInconsistencies\<close> changes nothing for an orphan position whose remote
  size is not zero and nothing for a missing local position: a divergence set made of
  such records only leaves the ledger as it is (no position row deleted or inserted, no
  price order updated, no remote cancellation attempted); the missing positions never
  influence the repair; the repair inserts no position row; and in the repair of the
  divergences that \<open>checkConsistency\<close> reports, every position that is not test data
  and has a nonzero remote size keeps its row, and (order ids being unique) the price
  orders of its symbol and side are neither updated nor cancelled remotely.
\<close>

theorem fixInconsistencies_frame:
  "((\<forall>orphan \<in> set (orphanPositions data). op_exchangeSize orphan \<noteq> 0) \<and>
     orphanPriceOrders data = [] \<and> testDataPositions data = [] \<longrightarrow>
       fixInconsistencies now data st = st) \<and>
   fixInconsistencies now (data\<lparr>missingPositions := missing\<rparr>) st =
     fixInconsistencies now data st \<and>
   set (positions (fixInconsistencies now (checkConsistency nc eps st) st)) \<subseteq> set (positions st) \<and>
   (\<forall>p \<in> set (positions st).
      \<not> isTestData (pos_symbol p) \<and> exchangeSizeOf nc eps (pos_symbol p) \<noteq> 0 \<longrightarrow>
        p \<in> set (positions (fixInconsistencies now (checkConsistency nc eps st) st)) \<and>
        (distinct (map po_order_id (price_orders st)) \<longrightarrow>
           (\<forall>order \<in> set (price_orders st).
              po_symbol order = pos_symbol p \<and> po_side order = pos_side p \<longrightarrow>
                order \<in> set (price_orders (fixInconsistencies now (checkConsistency nc eps st) st)) \<and>
                po_order_id order \<notin> set (drop (length (cancel_calls st))
                   (cancel_calls (fixInconsistencies now (checkConsistency nc eps st) st))))))"
proof (intro conjI impI ballI)
  assume a: "(\<forall>orphan \<in> set (orphanPositions data). op_exchangeSize orphan \<noteq> 0) \<and>
     orphanPriceOrders data = [] \<and> testDataPositions data = []"
  then have "fold (fixOrphanPosition now) (orphanPositions data) st = st"
    by (induction "orphanPositions data" arbitrary: data)
       (auto simp: fixOrphanPosition_def fold_simps intro: fold_invariant)
  with a show "fixInconsistencies now data st = st"
    by (simp add: fixInconsistencies_def)
next
  show "fixInconsistencies now (data\<lparr>missingPositions := missing\<rparr>) st =
     fixInconsistencies now data st"
    by (simp add: fixInconsistencies_def)
next
  show "set (positions (fixInconsistencies now (checkConsistency nc eps st) st)) \<subseteq> set (positions st)"
    by (auto simp: fixInconsistencies_positions keep_def)
next
  fix p
  assume p: "p \<in> set (positions st)"
    and q: "\<not> isTestData (pos_symbol p) \<and> exchangeSizeOf nc eps (pos_symbol p) \<noteq> 0"
  let ?data = "checkConsistency nc eps st"
  have k: "(pos_symbol p, pos_side p) \<notin> removedKeys ?data"
    using p q by (simp add: survives)
  with p show "p \<in> set (positions (fixInconsistencies now ?data st))"
    by (simp add: fixInconsistencies_positions keep_def)
  fix order
  assume d: "distinct (map po_order_id (price_orders st))"
    and o: "order \<in> set (price_orders st)"
    and m: "po_symbol order = pos_symbol p \<and> po_side order = pos_side p"
  have inj: "inj_on po_order_id (set (price_orders st))"
    using d by (simp add: distinct_map)
  have hp: "hasPosition (positions st) order"
    using p m unfolding hasPosition_iff by auto
  have notin: "po_order_id order \<notin> cancelledIds ?data (price_orders st)"
  proof
    assume "po_order_id order \<in> cancelledIds ?data (price_orders st)"
    then obtain order' where o': "order' \<in> set (price_orders st)"
        "po_order_id order' = po_order_id order"
        "\<not> hasPosition (positions st) order' \<or>
          (po_symbol order', po_side order') \<in> removedKeys ?data"
      unfolding cancelledIds_check by blast
    with inj o have "order' = order" by (auto dest: inj_onD)
    with o' hp k m show False by simp
  qed
  from o notin
  show "order \<in> set (price_orders (fixInconsistencies now ?data st))"
    by (force simp: fixInconsistencies_price_orders cancel_ids_def)
  from fixInconsistencies_tracked [of now st ?data]
  obtain calls where "cancel_calls (fixInconsistencies now ?data st) = cancel_calls st @ calls"
      "set calls \<subseteq> cancelledIds ?data (price_orders st)"
    by (auto simp: tracked_def)
  with notin
  show "po_order_id order \<notin> set (drop (length (cancel_calls st))
                   (cancel_calls (fixInconsistencies now ?data st)))"
    by auto
qed

theorem fixInconsistencies_frame_witness:
  "\<lparr>pos_symbol = ''ETH'', pos_side = ''short'', pos_entry_price = 3000,
     pos_stop_loss = 3100, pos_quantity = 2\<rparr> \<in> set (positions example_ledger) \<and>
   \<not> isTestData ''ETH'' \<and> exchangeSizeOf id example_remote ''ETH'' \<noteq> 0 \<and>
   distinct (map po_order_id (price_orders example_ledger)) \<and>
   \<lparr>po_id = 2, po_order_id = ''e1'', po_symbol = ''ETH'', po_side = ''short'',
     po_type = ''stop_loss'', po_status = ''active'', po_updated_at = 0\<rparr>
     \<in> set (price_orders example_ledger) \<and>
   \<lparr>pos_symbol = ''ETH'', pos_side = ''short'', pos_entry_price = 3000,
     pos_stop_loss = 3100, pos_quantity = 2\<rparr>
     \<in> set (positions (fixInconsistencies 1000
          (checkConsistency id example_remote example_ledger) example_ledger)) \<and>
   \<lparr>po_id = 2, po_order_id = ''e1'', po_symbol = ''ETH'', po_side = ''short'',
     po_type = ''stop_loss'', po_status = ''active'', po_updated_at = 0\<rparr>
     \<in> set (price_orders (fixInconsistencies 1000
          (checkConsistency id example_remote example_ledger) example_ledger)) \<and>
   fixInconsistencies 1000
     \<lparr>orphanPositions = [\<lparr>op_symbol = ''ETH'', op_side = ''short'', op_dbSize = 2,
                           op_exchangeSize = 1.5\<rparr>],
      orphanPriceOrders = [], testDataPositions = [],
      missingPositions = [(''SOL'', 10)]\<rparr> example_ledger = example_ledger"
proof -
  let ?p = "\<lparr>pos_symbol = ''ETH'', pos_side = ''short'', pos_entry_price = 3000,
     pos_stop_loss = 3100, pos_quantity = 2\<rparr>"
  let ?o = "\<lparr>po_id = 2, po_order_id = ''e1'', po_symbol = ''ETH'', po_side = ''short'',
     po_type = ''stop_loss'', po_status = ''active'', po_updated_at = 0\<rparr>"
  let ?d = "\<lparr>orphanPositions = [\<lparr>op_symbol = ''ETH'', op_side = ''short'', op_dbSize = 2,
                           op_exchangeSize = 1.5\<rparr>],
      orphanPriceOrders = [], testDataPositions = [],
      missingPositions = [(''SOL'', 10)]\<rparr>"
  have p: "?p \<in> set (positions example_ledger)"
    by (simp add: example_ledger_def)
  have t: "\<not> isTestData ''ETH''"
    by (simp add: isTestData_def)
  have e: "exchangeSizeOf id example_remote ''ETH'' \<noteq> 0"
    by (simp add: exchangeSizeOf_def example_remote_def parseSize_def)
  have d: "distinct (map po_order_id (price_orders example_ledger))"
    by (simp add: example_ledger_def)
  have o: "?o \<in> set (price_orders example_ledger)"
    by (simp add: example_ledger_def)
  have h: "(\<forall>orphan \<in> set (orphanPositions ?d). op_exchangeSize orphan \<noteq> 0) \<and>
     orphanPriceOrders ?d = [] \<and> testDataPositions ?d = []"
    by simp
  note f = fixInconsistencies_frame [of ?d 1000 example_ledger "[]" id example_remote]
  from f h have 1: "fixInconsistencies 1000 ?d example_ledger = example_ledger"
    by blast
  from f p t e have 2: "?p \<in> set (positions (fixInconsistencies 1000
          (checkConsistency id example_remote example_ledger) example_ledger))"
    by simp
  from f p t e d o have 3: "?o \<in> set (price_orders (fixInconsistencies 1000
          (checkConsistency id example_remote example_ledger) example_ledger))"
    by simp
  from p t e d o 1 2 3 show ?thesis by blast
qed

subsection \<open>Repeating the repair\<close>

text \<open>
  Claim C8, as the code has it. Running \<open>fixInconsistencies\<close> a second time on the same
  divergence set changes neither the position rows nor the status of any price order: the
  second run only attempts the remote cancellation of the orphan price orders again and
  rewrites their \<open>updated_at\<close>. A classification after the repair of the reported
  divergences (the remote positions being the same) finds no test-data position, no
  orphan price order and no orphan position whose remote size is zero; orphan positions
  with a nonzero remote size and missing local positions are not repaired and are
  reported again.
\<close>

theorem fixInconsistencies_repeat:
  "fixInconsistencies n2 data (fixInconsistencies n1 data st) =
     (fixInconsistencies n1 data st)
       \<lparr>price_orders := restamp n2 (oo_order_id ` set (orphanPriceOrders data))
                          (price_orders (fixInconsistencies n1 data st)),
        cancel_calls := cancel_calls (fixInconsistencies n1 data st) @
                          map oo_order_id (orphanPriceOrders data)\<rparr> \<and>
   map po_status (price_orders (fixInconsistencies n2 data (fixInconsistencies n1 data st))) =
     map po_status (price_orders (fixInconsistencies n1 data st)) \<and>
   testDataPositions (checkConsistency nc eps
      (fixInconsistencies n1 (checkConsistency nc eps st) st)) = [] \<and>
   orphanPriceOrders (checkConsistency nc eps
      (fixInconsistencies n1 (checkConsistency nc eps st) st)) = [] \<and>
   (\<forall>orphan \<in> set (orphanPositions (checkConsistency nc eps
        (fixInconsistencies n1 (checkConsistency nc eps st) st))).
      op_exchangeSize orphan \<noteq> 0)"
proof (intro conjI ballI)
  show 1: "fixInconsistencies n2 data (fixInconsistencies n1 data st) =
     (fixInconsistencies n1 data st)
       \<lparr>price_orders := restamp n2 (oo_order_id ` set (orphanPriceOrders data))
                          (price_orders (fixInconsistencies n1 data st)),
        cancel_calls := cancel_calls (fixInconsistencies n1 data st) @
                          map oo_order_id (orphanPriceOrders data)\<rparr>"
    by (rule fixInconsistencies_again)
  show "map po_status (price_orders (fixInconsistencies n2 data (fixInconsistencies n1 data st))) =
     map po_status (price_orders (fixInconsistencies n1 data st))"
    by (simp add: 1 restamp_def)
next
  let ?data = "checkConsistency nc eps st"
  let ?st1 = "fixInconsistencies n1 ?data st"
  have ps: "positions ?st1 = keep (removedKeys ?data) (positions st)"
    by (rule fixInconsistencies_positions)
  have in1: "p \<in> set (positions ?st1) \<Longrightarrow>
       p \<in> set (positions st) \<and> \<not> isTestData (pos_symbol p) \<and>
       exchangeSizeOf nc eps (pos_symbol p) \<noteq> 0" for p
    unfolding ps keep_def removedKeys_check by auto
  have "\<not> isTestData (pos_symbol p)" if "p \<in> set (positions ?st1)" for p
    using in1 [OF that] by blast
  then have "key \<notin> set (testDataPositions (checkConsistency nc eps ?st1))" for key
    unfolding in_testDataPositions_check by blast
  then show "testDataPositions (checkConsistency nc eps ?st1) = []"
    using last_in_set by blast
  show "orphanPriceOrders (checkConsistency nc eps ?st1) = []"
  proof -
    have "hasPosition (positions ?st1) order"
      if a: "order \<in> set (activePriceOrders ?st1)" for order
    proof (rule ccontr)
      assume n: "\<not> hasPosition (positions ?st1) order"
      from a have mem: "order \<in> set (cancel_ids n1 (cancelledIds ?data (price_orders st))
                                     (price_orders st))"
        and act: "po_status order = ''active''"
        by (simp_all add: activePriceOrders_def fixInconsistencies_price_orders)
      from mem obtain order0 where o0: "order0 \<in> set (price_orders st)"
          "order = (if po_order_id order0 \<in> cancelledIds ?data (price_orders st)
                    then order0\<lparr>po_status := ''cancelled'', po_updated_at := n1\<rparr> else order0)"
        unfolding cancel_ids_def set_map by blast
      with act have same: "order = order0" and
          notin: "po_order_id order0 \<notin> cancelledIds ?data (price_orders st)"
        by (auto split: if_splits)
      from notin o0 same act have hp: "hasPosition (positions st) order0" and
          nk: "(po_symbol order0, po_side order0) \<notin> removedKeys ?data"
        unfolding cancelledIds_check by auto
      from hp nk have "hasPosition (positions ?st1) order0"
        unfolding hasPosition_iff ps keep_def by auto
      with n same show False by simp
    qed
    then have "x \<notin> set (orphanPriceOrders (checkConsistency nc eps ?st1))" for x
      unfolding in_orphanPriceOrders_list_check by blast
    then show ?thesis
      using last_in_set by blast
  qed
  fix orphan
  assume "orphan \<in> set (orphanPositions (checkConsistency nc eps ?st1))"
  then obtain p where "p \<in> set (positions ?st1)" "orphan = orphanOf nc eps p"
    unfolding in_orphanPositions_check by blast
  with in1 [of p] show "op_exchangeSize orphan \<noteq> 0"
    by (simp add: orphanOf_def)
qed

theorem fixInconsistencies_repeat_witness:
  "orphanPositions (checkConsistency id example_remote
      (fixInconsistencies 1000 (checkConsistency id example_remote example_ledger)
         example_ledger)) =
     [\<lparr>op_symbol = ''ETH'', op_side = ''short'', op_dbSize = 2, op_exchangeSize = 1.5\<rparr>] \<and>
   testDataPositions (checkConsistency id example_remote
      (fixInconsistencies 1000 (checkConsistency id example_remote example_ledger)
         example_ledger)) = [] \<and>
   orphanPriceOrders (checkConsistency id example_remote
      (fixInconsistencies 1000 (checkConsistency id example_remote example_ledger)
         example_ledger)) = [] \<and>
   map po_status (price_orders (fixInconsistencies 2000
      (checkConsistency id example_remote example_ledger)
      (fixInconsistencies 1000 (checkConsistency id example_remote example_ledger)
         example_ledger))) = [''cancelled'', ''active'', ''cancelled'']"
proof -
  have "fixInconsistencies 1000 (checkConsistency id example_remote example_ledger)
          example_ledger =
        \<lparr>positions = [\<lparr>pos_symbol = ''ETH'', pos_side = ''short'', pos_entry_price = 3000,
                        pos_stop_loss = 3100, pos_quantity = 2\<rparr>],
         price_orders =
         [\<lparr>po_id = 1, po_order_id = ''b1'', po_symbol = ''BTC'', po_side = ''long'',
           po_type = ''stop_loss'', po_status = ''cancelled'', po_updated_at = 1000\<rparr>,
          \<lparr>po_id = 2, po_order_id = ''e1'', po_symbol = ''ETH'', po_side = ''short'',
           po_type = ''stop_loss'', po_status = ''active'', po_updated_at = 0\<rparr>,
          \<lparr>po_id = 3, po_order_id = ''x1'', po_symbol = ''XRP'', po_side = ''short'',
           po_type = ''take_profit'', po_status = ''cancelled'', po_updated_at = 1000\<rparr>],
         cancel_calls = [''b1'', ''x1'']\<rparr>"
    by (simp add: Let_def checkConsistency_def emptyResult_def exchangeSizeOf_def parseSize_def
        isTestData_def activePriceOrders_def example_ledger_def example_remote_def
        fixInconsistencies_def fixOrphanPosition_def fixTestData_def removePosition_def
        cancelRelatedPriceOrders_def cancelAndMark_def updatePriceOrderStatus_def)
  then have "orphanPositions (checkConsistency id example_remote
      (fixInconsistencies 1000 (checkConsistency id example_remote example_ledger)
         example_ledger)) =
     [\<lparr>op_symbol = ''ETH'', op_side = ''short'', op_dbSize = 2, op_exchangeSize = 1.5\<rparr>]"
    and "map po_status (price_orders (fixInconsistencies 1000
      (checkConsistency id example_remote example_ledger) example_ledger)) =
        [''cancelled'', ''active'', ''cancelled'']"
    by (simp_all add: Let_def checkConsistency_def emptyResult_def exchangeSizeOf_def
        parseSize_def isTestData_def activePriceOrders_def example_remote_def)
  moreover note r = fixInconsistencies_repeat
      [of 2000 "checkConsistency id example_remote example_ledger"
          1000 example_ledger id example_remote]
  note r [THEN conjunct2, THEN conjunct1]
    r [THEN conjunct2, THEN conjunct2, THEN conjunct1]
    r [THEN conjunct2, THEN conjunct2, THEN conjunct2, THEN conjunct1]
  ultimately show ?thesis by (simp only:)
qed

text \<open>Claim C8 as stated: after the repair of a position whose remote size is nonzero
  and different, the classification still finds a divergence.\<close>

theorem reclassification_counterexample:
  "hasInconsistencies (checkConsistency id
      [\<lparr>ex_contract = ''ETH'', ex_size = Some 1.5\<rparr>]
      (fixInconsistencies 1000
         (checkConsistency id [\<lparr>ex_contract = ''ETH'', ex_size = Some 1.5\<rparr>]
            \<lparr>positions = [\<lparr>pos_symbol = ''ETH'', pos_side = ''short'',
                 pos_entry_price = 3000, pos_stop_loss = 3100, pos_quantity = 2\<rparr>],
              price_orders = [], cancel_calls = []\<rparr>)
         \<lparr>positions = [\<lparr>pos_symbol = ''ETH'', pos_side = ''short'',
              pos_entry_price = 3000, pos_stop_loss = 3100, pos_quantity = 2\<rparr>],
           price_orders = [], cancel_calls = []\<rparr>))"
  by (simp add: Let_def checkConsistency_def emptyResult_def exchangeSizeOf_def parseSize_def
      isTestData_def activePriceOrders_def hasInconsistencies_def
      fixInconsistencies_def fixOrphanPosition_def)

section \<open>The executor: lease, stages and exceptions\<close>

subsection \<open>The lease\<close>



subsection \<open>The protocol of a stage\<close>




subsection \<open>Exceptions during a pass\<close>




subsection \<open>The result of a pass\<close>



subsection \<open>Recovering the original stop-loss\<close>




section \<open>The schedule of the consistency checker: passes and ticks\<close>

lemma checker_run_flag:
  "isRunning c = intervalId c \<Longrightarrow>
   isRunning (checker_run events c) = intervalId (checker_run events c)"
  unfolding checker_run_def
proof (induction events arbitrary: c)
  case Nil
  then show ?case by simp
next
  case (Cons event events)
  have "isRunning (checker_step event c) = intervalId (checker_step event c)"
    using Cons.prems by (cases event) (simp_all add: start_def stop_def runCheck_begins_def)
  from Cons.IH [OF this] show ?case by simp
qed

text \<open>
  Claim C4, as the code has it. The flag \<open>isRunning\<close> says that the checker was started:
  it is set by \<open>start\<close> together with the timer and cleared by \<open>stop\<close>, and it guards
  \<open>start\<close> only: while it is set, a call of \<open>start\<close> starts no pass and installs no
  timer. \<open>runCheck\<close> tests no flag: every firing of the timer starts a pass, whether or not
  a pass is in progress, so that passes overlap when one outlasts the interval.
\<close>

theorem checker_schedule:
  "isRunning (checker_run events newChecker) = intervalId (checker_run events newChecker) \<and>
   (isRunning c \<longrightarrow> checker_step Start c = c) \<and>
   (intervalId c \<longrightarrow>
      passes_started (checker_step TimerFires c) = passes_started c + 1 \<and>
      passes_in_progress (checker_step TimerFires c) = passes_in_progress c + 1)"
  by (simp add: checker_run_flag newChecker_def start_def runCheck_begins_def)

theorem checker_schedule_witness:
  "isRunning (checker_run [Start] newChecker) \<and>
   checker_step Start (checker_run [Start] newChecker) = checker_run [Start] newChecker \<and>
   passes_started (checker_step TimerFires (checker_run [Start] newChecker)) = 2"
  using checker_schedule [of "[Start]" "checker_run [Start] newChecker"]
  by (simp add: checker_run_def newChecker_def start_def runCheck_begins_def)

text \<open>Claim C4 as stated: the timer fires while the pass begun by \<open>start\<close> is in progress,
  and a second pass begins beside it.\<close>

theorem overlapping_passes_counterexample:
  "passes_in_progress (checker_run [Start] newChecker) = 1 \<and>
   passes_in_progress (checker_run [Start, TimerFires] newChecker) = 2 \<and>
   passes_started (checker_run [Start, TimerFires] newChecker) = 2"
  by (simp add: checker_run_def newChecker_def start_def runCheck_begins_def)

section \<open>Concurrent callers: invocations of the executor\<close>

subsection \<open>At most one invocation at a time\<close>




text \<open>Why the age of the lease matters: the executor of the first caller runs for 30
  seconds, the second caller deletes the lease row as expired and takes the lease; both
  are inside the executor.\<close>

lemma expired_lease_overlap:
  "r_pcs (race_run id ''BTC'' ''long'' 1 expiry_run (race_start (example_store [] [])))
     ''health-check'' = Executing \<and>
   r_pcs (race_run id ''BTC'' ''long'' 1 expiry_run (race_start (example_store [] [])))
     ''ai-agent'' = Executing \<and>
   r_invoked (race_run id ''BTC'' ''long'' 1 expiry_run (race_start (example_store [] []))) = 2 \<and>
   \<not> timely id ''BTC'' ''long'' 1 expiry_run (race_start (example_store [] []))"
  by (simp add: expiry_run_def race_start_def caller_step_def Let_def lockKey_def stage_digit_def
      delete_expired_def select_lock_def refresh_lock_def insert_lock_def delete_lock_def
      count_recent_def count_completed_def stage_done_def lease_fresh_def LOCK_TIMEOUT_MS_def
      example_store_def)

end
